theory Spec2Isabelle
  imports Complex_Main
begin

section \<open>Spark Plug: task scoring and the falling-block engine of src/app/page.tsx\<close>

text \<open>
  A shallow embedding of the pure core of \<^verbatim>\<open>src/app/page.tsx\<close>: the task score and the
  block game (geometry table, placement test, merge, line clearing, garbage rows,
  spawning, and the state updaters step, move, rotate and hardDrop).

  Conventions of the embedding.
  \<^item> JavaScript numbers that hold coordinates, sizes, counts and indices are \<open>int\<close>;
    the task attributes and weights, which are fractions, are \<open>real\<close> (doubles are
    idealised as reals, so rounding is not modelled).
  \<^item> A thrown exception is a value: every function that can throw returns
    \<open>error + 'a\<close> with \<open>Inl\<close> the exception.
  \<^item> \<^verbatim>\<open>Math.random()\<close> is an explicit source of draws that is passed in and returned.
  \<^item> An array read outside the array gives \<^verbatim>\<open>undefined\<close>, and an array write beyond
    the end leaves holes; both are the cell value \<open>None\<close>.
\<close>

subsection \<open>Errors and the random source\<close>

datatype error = TypeError | RangeError

text \<open>The draws of \<^verbatim>\<open>Math.random()\<close>, in the order they are taken.\<close>

type_synonym rng = "nat \<Rightarrow> real"

definition random :: "rng \<Rightarrow> real \<times> rng" where
  "random g = (g 0, \<lambda>n. g (Suc n))"

text \<open>\<^verbatim>\<open>Math.random()\<close> returns a number in \<open>[0, 1)\<close>.\<close>

definition unit_draws :: "rng \<Rightarrow> bool" where
  "unit_draws g = (\<forall>n. 0 \<le> g n \<and> g n < 1)"

text \<open>\<^verbatim>\<open>Math.floor(u * n)\<close> for a draw \<open>u\<close> and an integer \<open>n\<close>.\<close>

definition floor_scaled :: "real \<Rightarrow> int \<Rightarrow> int" where
  "floor_scaled u n = \<lfloor>u * of_int n\<rfloor>"

subsection \<open>Task score\<close>

text \<open>
  \<^verbatim>\<open>type Task = { id; title; notes?; impact; urgency; energyFit; complexity; effort;
  tags; done; createdAt }\<close>. The fields \<^verbatim>\<open>id\<close>, \<^verbatim>\<open>notes\<close> and \<^verbatim>\<open>done\<close> are
  renamed, their names being taken in Isabelle.
\<close>

record Task =
  task_id :: string
  title :: string
  task_notes :: "string option"
  impact :: real
  urgency :: real
  energyFit :: real
  complexity :: real
  effort :: real
  tags :: "string list"
  is_done :: bool
  createdAt :: int

text \<open>The weight object \<^verbatim>\<open>{ impact, urgency, energyFit, complexity }\<close>.\<close>

record Weights =
  w_impact :: real
  w_urgency :: real
  w_energyFit :: real
  w_complexity :: real

definition clamp01 :: "real \<Rightarrow> real" where
  "clamp01 v = max 0 (min 1 v)"

definition defaultWeights :: Weights where
  "defaultWeights =
     \<lparr>w_impact = 4 / 10, w_urgency = 3 / 10, w_energyFit = 2 / 10, w_complexity = 1 / 10\<rparr>"

definition taskScore :: "Task \<Rightarrow> Weights \<Rightarrow> real" where
  "taskScore t w =
     (let imp = clamp01 (impact t / 5); urg = clamp01 (urgency t / 5);
          fit = clamp01 (energyFit t / 5); cpx = clamp01 (complexity t / 5);
          effortPenalty = clamp01 ((effort t - 1) / 7) * (1 / 10)
      in max 0 (w_impact w * imp + w_urgency w * urg + w_energyFit w * fit
                - w_complexity w * cpx - effortPenalty))"

text \<open>
  The wording of the specification, to compare with: an attribute is normalised by
  dividing by its maximum 5 and clamping to \<open>[0, 1]\<close>.
\<close>

definition spec_norm :: "real \<Rightarrow> real" where
  "spec_norm v = (if v / 5 < 0 then 0 else if 1 < v / 5 then 1 else v / 5)"

definition spec_effortPenalty :: "Task \<Rightarrow> real" where
  "spec_effortPenalty t =
     (1 / 10) * (if (effort t - 1) / 7 < 0 then 0
                 else if 1 < (effort t - 1) / 7 then 1 else (effort t - 1) / 7)"

subsection \<open>Piece kinds and the geometry table\<close>

text \<open>\<^verbatim>\<open>type Shape = 'I'|'O'|'T'|'S'|'Z'|'J'|'L'\<close>.\<close>

datatype Shape = Shape_I | Shape_O | Shape_T | Shape_S | Shape_Z | Shape_J | Shape_L

definition SHAPES :: "Shape list" where
  "SHAPES = [Shape_I, Shape_O, Shape_T, Shape_S, Shape_Z, Shape_J, Shape_L]"

text \<open>A rotation state: a literal \<^verbatim>\<open>number[][]\<close> that the engine only reads.\<close>

type_synonym matrix = "int list list"

fun PIECE_MAP :: "Shape \<Rightarrow> matrix list" where
  "PIECE_MAP Shape_I = [ [[1,1,1,1]], [[1],[1],[1],[1]] ]"
| "PIECE_MAP Shape_O = [ [[1,1],[1,1]] ]"
| "PIECE_MAP Shape_T =
     [ [[1,1,1],[0,1,0]], [[1,0],[1,1],[1,0]], [[0,1,0],[1,1,1]], [[0,1],[1,1],[0,1]] ]"
| "PIECE_MAP Shape_S = [ [[0,1,1],[1,1,0]], [[1,0],[1,1],[0,1]] ]"
| "PIECE_MAP Shape_Z = [ [[1,1,0],[0,1,1]], [[0,1],[1,1],[1,0]] ]"
| "PIECE_MAP Shape_J =
     [ [[1,0,0],[1,1,1]], [[1,1],[1,0],[1,0]], [[1,1,1],[0,0,1]], [[0,1],[0,1],[1,1]] ]"
| "PIECE_MAP Shape_L =
     [ [[0,0,1],[1,1,1]], [[1,0],[1,0],[1,1]], [[1,1,1],[1,0,0]], [[1,1],[0,1],[0,1]] ]"

text \<open>
  The lookup \<^verbatim>\<open>PIECE_MAP[kind][r]\<close> as step, move, hardDrop and draw write it: the
  index is used as it is. Outside the list the lookup gives \<^verbatim>\<open>undefined\<close>, and the
  next thing each caller does is read \<^verbatim>\<open>shape.length\<close>, which throws a TypeError.
\<close>

definition pieceMatrix :: "Shape \<Rightarrow> int \<Rightarrow> error + matrix" where
  "pieceMatrix k i =
     (if 0 \<le> i \<and> i < int (length (PIECE_MAP k)) then Inr (PIECE_MAP k ! nat i)
      else Inl TypeError)"

text \<open>
  The remainder operator \<^verbatim>\<open>a % n\<close> for a positive \<open>n\<close>: the result has the sign of
  \<open>a\<close>.
\<close>

definition js_rem :: "int \<Rightarrow> int \<Rightarrow> int" where
  "js_rem a n = (if a < 0 then - ((- a) mod n) else a mod n)"

subsection \<open>Boards\<close>

text \<open>
  A board cell is a number, or \<open>None\<close> for a hole of the array (which reads as
  \<^verbatim>\<open>undefined\<close>). A cell is occupied when it is truthy.
\<close>

type_synonym cell = "int option"
type_synonym board = "cell list list"

definition truthy :: "cell \<Rightarrow> bool" where
  "truthy v = (case v of None \<Rightarrow> False | Some n \<Rightarrow> n \<noteq> 0)"

text \<open>\<^verbatim>\<open>row[j]\<close> on a board row, and \<^verbatim>\<open>row[c]\<close> on a row of a rotation state.\<close>

definition cell_read :: "cell list \<Rightarrow> int \<Rightarrow> cell" where
  "cell_read row j = (if 0 \<le> j \<and> j < int (length row) then row ! nat j else None)"

definition num_read :: "int list \<Rightarrow> nat \<Rightarrow> cell" where
  "num_read row c = (if c < length row then Some (row ! c) else None)"

text \<open>
  \<^verbatim>\<open>row[j] = v\<close>: inside the row the cell is replaced; beyond its end the array grows,
  with holes up to \<open>j\<close>; a negative \<open>j\<close> sets a property that is not an array element,
  and no read of the engine looks at it (canPlace tests \<^verbatim>\<open>nx<0\<close> first).
\<close>

definition cell_write :: "cell list \<Rightarrow> int \<Rightarrow> int \<Rightarrow> cell list" where
  "cell_write row j v =
     (if j < 0 then row
      else if j < int (length row) then row[nat j := Some v]
      else row @ replicate (nat j - length row) None @ [Some v])"

text \<open>\<^verbatim>\<open>b[i][j] = v\<close>: when \<^verbatim>\<open>b[i]\<close> is \<^verbatim>\<open>undefined\<close> the assignment throws.\<close>

definition board_write :: "board \<Rightarrow> int \<Rightarrow> int \<Rightarrow> int \<Rightarrow> error + board" where
  "board_write b i j v =
     (if 0 \<le> i \<and> i < int (length b) then Inr (b[nat i := cell_write (b ! nat i) j v])
      else Inl TypeError)"

text \<open>
  \<^verbatim>\<open>Array.from({length:h},()=>Array(w).fill(0))\<close>: a length below zero counts as zero,
  and \<^verbatim>\<open>Array(w)\<close> with a negative \<open>w\<close> throws a RangeError (once a row is built).
\<close>

definition createBoard :: "int \<Rightarrow> int \<Rightarrow> error + board" where
  "createBoard h w =
     (if h \<le> 0 then Inr []
      else if w < 0 then Inl RangeError
      else Inr (replicate (nat h) (replicate (nat w) (Some 0))))"

text \<open>
  The cells that the two nested loops of canPlace and merge visit, in their order:
  \<open>r\<close> over the rows of the shape, \<open>c\<close> over the length of its first row.
\<close>

definition loop_cells :: "matrix \<Rightarrow> (nat \<times> nat) list" where
  "loop_cells sh =
     (case sh of [] \<Rightarrow> [] | row0 # _ \<Rightarrow> List.product [0..<length sh] [0..<length row0])"

text \<open>
  The test \<^verbatim>\<open>ny<0||ny>=board.length||nx<0||nx>=board[0].length||board[ny][nx]\<close>.
  \<^verbatim>\<open>board[0]\<close> is read only after \<open>0 \<le> ny < board.length\<close>, so the board has a row.
\<close>

definition blocked :: "board \<Rightarrow> int \<Rightarrow> int \<Rightarrow> bool" where
  "blocked b nx ny =
     (ny < 0 \<or> ny \<ge> int (length b) \<or> nx < 0 \<or> nx \<ge> int (length (b ! 0))
      \<or> truthy (cell_read (b ! nat ny) nx))"

text \<open>canPlace returns false at the first blocked cell, and true when there is none.\<close>

definition canPlace :: "board \<Rightarrow> matrix \<Rightarrow> int \<Rightarrow> int \<Rightarrow> bool" where
  "canPlace b sh x y =
     list_all (\<lambda>(r, c). \<not> (truthy (num_read (sh ! r) c) \<and> blocked b (x + int c) (y + int r)))
       (loop_cells sh)"

text \<open>
  merge copies the rows (\<^verbatim>\<open>board.map(row=>row.slice())\<close>) and writes 1 at every
  occupied cell of the shape, without a check: a write into a missing row throws.
\<close>

fun merge_cells :: "matrix \<Rightarrow> int \<Rightarrow> int \<Rightarrow> (nat \<times> nat) list \<Rightarrow> board \<Rightarrow> error + board" where
  "merge_cells sh x y [] b = Inr b"
| "merge_cells sh x y ((r, c) # rest) b =
     (if truthy (num_read (sh ! r) c)
      then (case board_write b (y + int r) (x + int c) 1 of
              Inl e \<Rightarrow> Inl e
            | Inr b' \<Rightarrow> merge_cells sh x y rest b')
      else merge_cells sh x y rest b)"

definition merge :: "board \<Rightarrow> matrix \<Rightarrow> int \<Rightarrow> int \<Rightarrow> error + board" where
  "merge b sh x y = merge_cells sh x y (loop_cells sh) b"

text \<open>
  clearLines keeps the rows with a cell \<^verbatim>\<open>=== 0\<close> (\<^verbatim>\<open>some\<close> skips holes) and puts
  rows of zeros, as long as the first row of the input, in front until the row count
  is the input's.
\<close>

function unshift_rows :: "nat \<Rightarrow> cell list \<Rightarrow> board \<Rightarrow> board" where
  "unshift_rows n row kept =
     (if length kept < n then unshift_rows n row (row # kept) else kept)"
  by pat_completeness auto
termination
  by (relation "measure (\<lambda>(n, row, kept). n - length kept)") auto

definition clearLines :: "board \<Rightarrow> board \<times> int" where
  "clearLines b =
     (let kept = filter (\<lambda>row. Some 0 \<in> set row) b;
          cleared = int (length b) - int (length kept)
      in case b of
           [] \<Rightarrow> (kept, cleared)
         | row0 # _ \<Rightarrow> (unshift_rows (length b) (replicate (length row0) (Some 0)) kept, cleared))"

subsection \<open>Garbage rows\<close>

text \<open>
  The inner loop of generateGarbage, \<^verbatim>\<open>b[y][x] = x===gap ? 0 : (Math.random()<0.9?1:0)\<close>
  for \<open>x\<close> from 0 to \<open>w - 1\<close>, on the row \<^verbatim>\<open>b[y]\<close>: a draw is taken only off the gap.
\<close>

fun fill_row :: "int \<Rightarrow> nat list \<Rightarrow> cell list \<Rightarrow> rng \<Rightarrow> cell list \<times> rng" where
  "fill_row gap [] row g = (row, g)"
| "fill_row gap (x # xs) row g =
     (if int x = gap then fill_row gap xs (cell_write row (int x) 0) g
      else (case random g of
              (u, g') \<Rightarrow> fill_row gap xs (cell_write row (int x) (if u < 9 / 10 then 1 else 0)) g'))"

text \<open>
  One round of the outer loop, for the row \<open>y\<close>. When \<^verbatim>\<open>b[y]\<close> is \<^verbatim>\<open>undefined\<close> the
  round throws (at the first write, or at \<^verbatim>\<open>b[y].every\<close> when \<open>w \<le> 0\<close>).
  \<^verbatim>\<open>every\<close> skips holes.
\<close>

definition garbage_row :: "int \<Rightarrow> int \<Rightarrow> board \<Rightarrow> rng \<Rightarrow> error + board \<times> rng" where
  "garbage_row w y b g =
     (case random g of
        (u, g1) \<Rightarrow>
          let gap = floor_scaled u w in
          if 0 \<le> y \<and> y < int (length b) then
            (case fill_row gap [0..<nat w] (b ! nat y) g1 of
               (row, g2) \<Rightarrow>
                 if list_all (\<lambda>v. v = None \<or> v = Some 1) row
                 then (case random g2 of
                         (u', g3) \<Rightarrow> Inr (b[nat y := cell_write row (floor_scaled u' w) 0], g3))
                 else Inr (b[nat y := row], g2))
          else Inl TypeError)"

fun garbage_rows :: "int \<Rightarrow> int \<Rightarrow> nat list \<Rightarrow> board \<Rightarrow> rng \<Rightarrow> error + board \<times> rng" where
  "garbage_rows h w [] b g = Inr (b, g)"
| "garbage_rows h w (i # rest) b g =
     (case garbage_row w (h - 1 - int i) b g of
        Inl e \<Rightarrow> Inl e
      | Inr (b', g') \<Rightarrow> garbage_rows h w rest b' g')"

definition generateGarbage :: "int \<Rightarrow> int \<Rightarrow> int \<Rightarrow> rng \<Rightarrow> error + board \<times> rng" where
  "generateGarbage h w rows g =
     (case createBoard h w of
        Inl e \<Rightarrow> Inl e
      | Inr b \<Rightarrow> garbage_rows h w [0..<nat rows] b g)"

subsection \<open>Inventory and spawning\<close>

text \<open>\<^verbatim>\<open>type Inventory = Record<Shape, number>\<close>.\<close>

type_synonym Inventory = "Shape \<Rightarrow> int"

text \<open>
  The active piece \<^verbatim>\<open>{ shape, x, y, r }\<close> (fields prefixed with \<open>p\<close>, so that \<open>x\<close>,
  \<open>y\<close> and \<open>r\<close> stay free for variables).
\<close>

record Piece =
  pshape :: Shape
  px :: int
  py :: int
  pr :: int

text \<open>The result \<^verbatim>\<open>{ piece, consumed? }\<close> of spawnFromInventory.\<close>

record Spawned =
  spawned :: "Piece option"
  consumed :: "Shape option"

text \<open>
  spawnFromInventory, returning the inventory too: the one it handed to \<^verbatim>\<open>setInv\<close>, or
  the one it was given when it spawned nothing. An index outside \<^verbatim>\<open>available\<close>
  (which no draw in \<open>[0, 1)\<close> gives) ends in a TypeError at \<^verbatim>\<open>PIECE_MAP[shape][0]\<close>.
\<close>

definition spawnFromInventory :: "Inventory \<Rightarrow> rng \<Rightarrow> error + Spawned \<times> Inventory \<times> rng" where
  "spawnFromInventory invt g =
     (let available = filter (\<lambda>s. invt s > 0) SHAPES in
      if length available = 0 then Inr (\<lparr>spawned = None, consumed = None\<rparr>, invt, g)
      else (case random g of
              (u, g') \<Rightarrow>
                let idx = floor_scaled u (int (length available)) in
                if 0 \<le> idx \<and> idx < int (length available) then
                  let shape = available ! nat idx;
                      next = invt(shape := max 0 (invt shape - 1));
                      matrix = PIECE_MAP shape ! 0;
                      x = (10 - int (length (matrix ! 0))) div 2
                  in Inr (\<lparr>spawned = Some \<lparr>pshape = shape, px = x, py = 0, pr = 0\<rparr>,
                           consumed = Some shape\<rparr>, next, g')
                else Inl TypeError))"

subsection \<open>Game state and its updaters\<close>

text \<open>\<^verbatim>\<open>type GameState = { board; piece; over; score }\<close>.\<close>

record GameState =
  board :: board
  piece :: "Piece option"
  over :: bool
  score :: int

text \<open>The updater that step hands to \<^verbatim>\<open>setState\<close>.\<close>

definition step :: "GameState \<Rightarrow> error + GameState" where
  "step s =
     (if over s then Inr s
      else case piece s of
        None \<Rightarrow> Inr s
      | Some p \<Rightarrow>
          (case pieceMatrix (pshape p) (pr p) of
             Inl e \<Rightarrow> Inl e
           | Inr shape \<Rightarrow>
               let ny = py p + 1 in
               if canPlace (board s) shape (px p) ny then Inr (s\<lparr>piece := Some (p\<lparr>py := ny\<rparr>)\<rparr>)
               else (case merge (board s) shape (px p) (py p) of
                       Inl e \<Rightarrow> Inl e
                     | Inr merged \<Rightarrow>
                         (case clearLines merged of
                            (b, lines) \<Rightarrow>
                              Inr (s\<lparr>board := b, piece := None, score := score s + lines * 100\<rparr>)))))"

definition move :: "int \<Rightarrow> GameState \<Rightarrow> error + GameState" where
  "move dx s =
     (case piece s of
        None \<Rightarrow> Inr s
      | Some p \<Rightarrow>
          (case pieceMatrix (pshape p) (pr p) of
             Inl e \<Rightarrow> Inl e
           | Inr shape \<Rightarrow>
               let nx = px p + dx in
               if canPlace (board s) shape nx (py p) then Inr (s\<lparr>piece := Some (p\<lparr>px := nx\<rparr>)\<rparr>)
               else Inr s))"

definition rotate :: "GameState \<Rightarrow> error + GameState" where
  "rotate s =
     (case piece s of
        None \<Rightarrow> Inr s
      | Some p \<Rightarrow>
          let nr = js_rem (pr p + 1) (int (length (PIECE_MAP (pshape p)))) in
          (case pieceMatrix (pshape p) nr of
             Inl e \<Rightarrow> Inl e
           | Inr shape \<Rightarrow>
               if canPlace (board s) shape (px p) (py p) then Inr (s\<lparr>piece := Some (p\<lparr>pr := nr\<rparr>)\<rparr>)
               else Inr s))"

text \<open>
  The loop \<^verbatim>\<open>while(canPlace(s.board, shape, s.piece.x, y+1)) y++\<close> of hardDrop. It runs
  for ever on a shape without an occupied cell, so its result is optional.
\<close>

partial_function (option) drop_loop :: "board \<Rightarrow> matrix \<Rightarrow> int \<Rightarrow> int \<Rightarrow> int option" where
  "drop_loop b shape x y =
     (if canPlace b shape x (y + 1) then drop_loop b shape x (y + 1) else Some y)"

text \<open>hardDrop: its own updater, then the updater of step on the result.\<close>

definition hardDrop :: "GameState \<Rightarrow> (error + GameState) option" where
  "hardDrop s =
     (case piece s of
        None \<Rightarrow> Some (step s)
      | Some p \<Rightarrow>
          (case pieceMatrix (pshape p) (pr p) of
             Inl e \<Rightarrow> Some (Inl e)
           | Inr shape \<Rightarrow>
               (case drop_loop (board s) shape (px p) (py p) of
                  None \<Rightarrow> None
                | Some y \<Rightarrow> Some (step (s\<lparr>piece := Some (p\<lparr>py := y\<rparr>)\<rparr>)))))"

subsection \<open>The component TetrisPlay\<close>

text \<open>
  The state of the component: the game state, the flag \<^verbatim>\<open>running\<close>, the last consumed
  kind, the prefill count, and the inventory it receives from its parent together with
  \<^verbatim>\<open>setInventory\<close>.
\<close>

record Play =
  game :: GameState
  running :: bool
  lastConsumed :: "Shape option"
  prefill :: int
  inventory :: Inventory

text \<open>
  ensurePiece: with no active piece it spawns; a piece goes into the game state, and
  without one the loop is stopped.
\<close>

definition ensurePiece :: "Play \<Rightarrow> rng \<Rightarrow> error + Play \<times> rng" where
  "ensurePiece pl g =
     (case piece (game pl) of
        Some p \<Rightarrow> Inr (pl, g)
      | None \<Rightarrow>
          (case spawnFromInventory (inventory pl) g of
             Inl e \<Rightarrow> Inl e
           | Inr (res, invt', g') \<Rightarrow>
               (case spawned res of
                  Some p \<Rightarrow>
                    Inr (pl\<lparr>game := (game pl)\<lparr>piece := Some p\<rparr>, lastConsumed := consumed res,
                             inventory := invt'\<rparr>, g')
                | None \<Rightarrow> Inr (pl\<lparr>running := False\<rparr>, g'))))"

text \<open>reset: a new board with \<^verbatim>\<open>Math.max(0,Math.min(10,prefill))\<close> garbage rows.\<close>

definition reset :: "Play \<Rightarrow> rng \<Rightarrow> error + Play \<times> rng" where
  "reset pl g =
     (case generateGarbage 20 10 (max 0 (min 10 (prefill pl))) g of
        Inl e \<Rightarrow> Inl e
      | Inr (b, g') \<Rightarrow>
          Inr (pl\<lparr>game := \<lparr>board = b, piece = None, over = False, score = 0\<rparr>, running := False\<rparr>,
               g'))"

subsection \<open>Drawing\<close>

text \<open>
  draw, as the list of canvas calls it makes on a canvas of \<open>w\<close> by \<open>h\<close> pixels. An
  empty board makes \<^verbatim>\<open>state.board[0].length\<close> throw. With no columns the cell width
  \<^verbatim>\<open>Math.floor(w/cols)\<close> is not finite, and the canvas ignores a \<^verbatim>\<open>fillRect\<close> with
  such an argument: the piece is then not painted.
\<close>

datatype paint = ClearRect int int int int | FillRect string int int int int

fun SHAPE_COLOR :: "Shape \<Rightarrow> string" where
  "SHAPE_COLOR Shape_I = ''#17E9E0''"
| "SHAPE_COLOR Shape_O = ''#FCCD04''"
| "SHAPE_COLOR Shape_T = ''#A64AC9''"
| "SHAPE_COLOR Shape_S = ''#8DE36F''"
| "SHAPE_COLOR Shape_Z = ''#FF6B6B''"
| "SHAPE_COLOR Shape_J = ''#4DA3FF''"
| "SHAPE_COLOR Shape_L = ''#FFB48F''"

definition palette :: "string list" where
  "palette = [''#A64AC9'', ''#FCCD04'', ''#FFB48F'', ''#F5E6CC'', ''#17E9E0'']"

definition draw :: "nat \<Rightarrow> nat \<Rightarrow> GameState \<Rightarrow> error + paint list" where
  "draw w h s =
     (case board s of
        [] \<Rightarrow> Inl TypeError
      | row0 # _ \<Rightarrow>
          let cols = length row0; rows = length (board s);
              cw = int w div int cols; ch = int h div int rows;
              cells =
                concat (map (\<lambda>(r, c).
                    if truthy (cell_read (board s ! r) (int c))
                    then [FillRect (palette ! ((r * 13 + c * 7) mod length palette))
                            (int c * cw) (int r * ch) (cw - 1) (ch - 1)]
                    else [])
                  (List.product [0..<rows] [0..<cols]))
          in (case piece s of
                None \<Rightarrow> Inr (ClearRect 0 0 (int w) (int h) # cells)
              | Some p \<Rightarrow>
                  (case pieceMatrix (pshape p) (pr p) of
                     Inl e \<Rightarrow> Inl e
                   | Inr shape \<Rightarrow>
                       Inr (ClearRect 0 0 (int w) (int h) # cells @
                            (if cols = 0 then []
                             else concat (map (\<lambda>(r, c).
                                 if truthy (num_read (shape ! r) c)
                                 then [FillRect (SHAPE_COLOR (pshape p))
                                         ((px p + int c) * cw) ((py p + int r) * ch)
                                         (cw - 1) (ch - 1)]
                                 else [])
                               (loop_cells shape)))))))"

subsection \<open>The states the component reaches\<close>

text \<open>
  The component starts with a board of two garbage rows, no piece, \<^verbatim>\<open>over:false\<close>,
  score 0, not running, and the inventory its parent hands it. Its state then changes
  by the updaters of the timer loop and of the buttons (a call that throws changes
  nothing), by the effect that calls ensurePiece, by the start, pause and prefill
  buttons, and by the parent replacing the inventory.
\<close>

inductive reachable :: "Play \<Rightarrow> bool" where
  mount: "generateGarbage 20 10 2 g = Inr (b, g') \<Longrightarrow>
     reachable \<lparr>game = \<lparr>board = b, piece = None, over = False, score = 0\<rparr>, running = False,
                lastConsumed = None, prefill = 2, inventory = invt\<rparr>"
| tick: "reachable pl \<Longrightarrow> step (game pl) = Inr s' \<Longrightarrow> reachable (pl\<lparr>game := s'\<rparr>)"
| shift: "reachable pl \<Longrightarrow> move dx (game pl) = Inr s' \<Longrightarrow> reachable (pl\<lparr>game := s'\<rparr>)"
| turn: "reachable pl \<Longrightarrow> rotate (game pl) = Inr s' \<Longrightarrow> reachable (pl\<lparr>game := s'\<rparr>)"
| drop: "reachable pl \<Longrightarrow> hardDrop (game pl) = Some (Inr s') \<Longrightarrow> reachable (pl\<lparr>game := s'\<rparr>)"
| ensure: "reachable pl \<Longrightarrow> ensurePiece pl g = Inr (pl', g') \<Longrightarrow> reachable pl'"
| restart: "reachable pl \<Longrightarrow> reset pl g = Inr (pl', g') \<Longrightarrow> reachable pl'"
| start_pause: "reachable pl \<Longrightarrow> reachable (pl\<lparr>running := on\<rparr>)"
| prefill_less: "reachable pl \<Longrightarrow> reachable (pl\<lparr>prefill := max 0 (prefill pl - 1)\<rparr>)"
| prefill_more: "reachable pl \<Longrightarrow> reachable (pl\<lparr>prefill := min 10 (prefill pl + 1)\<rparr>)"
| granted: "reachable pl \<Longrightarrow> reachable (pl\<lparr>inventory := invt\<rparr>)"

subsection \<open>Predicates of the statements\<close>

text \<open>A board whose cells are all 0 or 1, a row whose cells are all occupied, and a
  grid whose rows all have the length \<open>w\<close>.\<close>

definition binary_rows :: "board \<Rightarrow> bool" where
  "binary_rows b = list_all (list_all (\<lambda>v. v = Some 0 \<or> v = Some 1)) b"

definition full_row :: "cell list \<Rightarrow> bool" where
  "full_row row = list_all truthy row"

definition rectangular :: "nat \<Rightarrow> 'a list list \<Rightarrow> bool" where
  "rectangular w b = list_all (\<lambda>row. length row = w) b"

text \<open>
  The cell \<open>(i, j)\<close> of the board is under an occupied cell of the shape placed at
  \<open>(x, y)\<close>; and every occupied cell of the shape placed at row \<open>y\<close> is in a row of the
  board.
\<close>

definition covers :: "matrix \<Rightarrow> int \<Rightarrow> int \<Rightarrow> nat \<Rightarrow> nat \<Rightarrow> bool" where
  "covers sh x y i j =
     list_ex (\<lambda>(r, c). truthy (num_read (sh ! r) c) \<and> y + int r = int i \<and> x + int c = int j)
       (loop_cells sh)"

definition in_rows :: "board \<Rightarrow> matrix \<Rightarrow> int \<Rightarrow> bool" where
  "in_rows b sh y =
     list_all (\<lambda>(r, c). \<not> truthy (num_read (sh ! r) c)
                 \<or> (0 \<le> y + int r \<and> y + int r < int (length b)))
       (loop_cells sh)"

declare unshift_rows.simps [simp del]
declare drop_loop.simps [code]

section \<open>Task score\<close>

lemma clamp01_norm: "clamp01 (v / 5) = spec_norm v"
  by (simp add: clamp01_def spec_norm_def max_def min_def)

lemma clamp01_effort: "clamp01 ((effort t - 1) / 7) * (1 / 10) = spec_effortPenalty t"
  by (simp add: clamp01_def spec_effortPenalty_def max_def min_def)

lemma spec_norm_bounds: "0 \<le> spec_norm v \<and> spec_norm v \<le> 1"
  by (simp add: spec_norm_def)

lemma spec_effortPenalty_bounds: "0 \<le> spec_effortPenalty t \<and> spec_effortPenalty t \<le> 1 / 10"
  by (simp add: spec_effortPenalty_def)

text \<open>
  C2. The task score is the weighted sum of the normalised impact, urgency and energy
  fit, minus the weighted normalised complexity and the effort penalty, floored at 0,
  hence never negative. An attribute is normalised by dividing by 5 and clamping to
  \<open>[0, 1]\<close>; the effort penalty is the clamped \<open>(effort - 1) / 7\<close> times the fixed
  coefficient 0.1, so it contributes at most 0.1.
\<close>

theorem taskScore_formula:
  "taskScore t w =
     max 0 (w_impact w * spec_norm (impact t) + w_urgency w * spec_norm (urgency t)
            + w_energyFit w * spec_norm (energyFit t)
            - w_complexity w * spec_norm (complexity t) - spec_effortPenalty t)
   \<and> 0 \<le> taskScore t w
   \<and> 0 \<le> spec_norm v \<and> spec_norm v \<le> 1
   \<and> 0 \<le> spec_effortPenalty t \<and> spec_effortPenalty t \<le> 1 / 10"
proof -
  have eq: "taskScore t w =
     max 0 (w_impact w * spec_norm (impact t) + w_urgency w * spec_norm (urgency t)
            + w_energyFit w * spec_norm (energyFit t)
            - w_complexity w * spec_norm (complexity t) - spec_effortPenalty t)"
    unfolding taskScore_def Let_def clamp01_norm clamp01_effort ..
  have "0 \<le> taskScore t w" unfolding eq by (rule max.cobounded1)
  with eq spec_norm_bounds [of v] spec_effortPenalty_bounds [of t] show ?thesis by blast
qed

section \<open>Line clearing\<close>

lemma unshift_rows_eq: "unshift_rows n row kept = replicate (n - length kept) row @ kept"
proof (induction n row kept rule: unshift_rows.induct)
  case (1 n row kept)
  show ?case
  proof (cases "length kept < n")
    case True
    then have eq: "n - length kept = Suc (n - length (row # kept))" by simp
    have "unshift_rows n row kept = unshift_rows n row (row # kept)"
      using True by (subst unshift_rows.simps) simp
    also have "\<dots> = replicate (n - length (row # kept)) row @ row # kept"
      using 1 True by simp
    also have "\<dots> = replicate (n - length kept) row @ kept"
      unfolding eq by (simp add: replicate_app_Cons_same)
    finally show ?thesis .
  next
    case False then show ?thesis by (subst unshift_rows.simps) simp
  qed
qed

lemma binary_full_iff:
  "list_all (\<lambda>v. v = Some 0 \<or> v = Some 1) row \<Longrightarrow> full_row row \<longleftrightarrow> Some 0 \<notin> set row"
  by (induction row) (auto simp: full_row_def truthy_def)

lemma length_filter_compl:
  "length (filter P xs) + length (filter (\<lambda>x. \<not> P x) xs) = length xs"
  by (induction xs) auto

lemma clearLines_eq:
  assumes "binary_rows b" "rectangular w b"
  shows "clearLines b =
           (replicate (length (filter full_row b)) (replicate w (Some 0))
              @ filter (\<lambda>row. \<not> full_row row) b,
            int (length (filter full_row b)))"
proof -
  have f1: "filter (\<lambda>row. Some 0 \<in> set row) b = filter (\<lambda>row. \<not> full_row row) b"
    using assms(1) by (intro filter_cong) (auto simp: binary_rows_def list_all_iff binary_full_iff)
  have len: "length b - length (filter (\<lambda>row. \<not> full_row row) b) = length (filter full_row b)"
    using length_filter_compl [of full_row b] by simp
  show ?thesis
  proof (cases b)
    case Nil then show ?thesis by (simp add: clearLines_def)
  next
    case (Cons row0 rest)
    then have "length row0 = w" using assms(2) by (simp add: rectangular_def)
    then show ?thesis
      using len length_filter_compl [of full_row b] unfolding clearLines_def Let_def f1 unshift_rows_eq
      by (simp add: Cons)
  qed
qed

lemma rectangular_append:
  "rectangular w (xs @ ys) \<longleftrightarrow> rectangular w xs \<and> rectangular w ys"
  by (simp add: rectangular_def)

lemma rectangular_filter: "rectangular w xs \<Longrightarrow> rectangular w (filter P xs)"
  by (simp add: rectangular_def list_all_iff)

text \<open>
  C6. On a board of width \<open>w\<close> whose cells are 0 or 1, clearLines removes exactly the
  full rows, reports their number \<open>K\<close>, puts \<open>K\<close> empty rows on top of the remaining
  rows, which keep their order, and returns a board with as many rows and columns as
  the input. On the four rows 1111, 1111, 0111, 0000 it reports 2.
\<close>

theorem clearLines_spec:
  assumes "binary_rows b" and "rectangular w b"
  shows "fst (clearLines b) =
           replicate (length (filter full_row b)) (replicate w (Some 0))
             @ filter (\<lambda>row. \<not> full_row row) b
       \<and> snd (clearLines b) = int (length (filter full_row b))
       \<and> length (fst (clearLines b)) = length b
       \<and> rectangular w (fst (clearLines b))
       \<and> snd (clearLines [[Some 1, Some 1, Some 1, Some 1], [Some 1, Some 1, Some 1, Some 1],
                           [Some 0, Some 1, Some 1, Some 1], [Some 0, Some 0, Some 0, Some 0]]) = 2"
proof -
  note eq = clearLines_eq [OF assms]
  have len: "length (fst (clearLines b)) = length b"
    unfolding eq using length_filter_compl [of full_row b] by simp
  have rect: "rectangular w (fst (clearLines b))"
    unfolding eq using rectangular_filter [OF assms(2)]
    by (simp add: rectangular_append) (simp add: rectangular_def list_all_iff)
  have ex: "snd (clearLines [[Some 1, Some 1, Some 1, Some 1], [Some 1, Some 1, Some 1, Some 1],
                             [Some 0, Some 1, Some 1, Some 1], [Some 0, Some 0, Some 0, Some 0]]) = 2"
    by (simp add: clearLines_def)
  from eq len rect ex show ?thesis by simp
qed

theorem clearLines_spec_witness:
  "binary_rows [[Some 1, Some 1, Some 1, Some 1], [Some 1, Some 1, Some 1, Some 1],
                [Some 0, Some 1, Some 1, Some 1], [Some 0, Some 0, Some 0, Some 0]]
   \<and> rectangular 4 [[Some 1, Some 1, Some 1, Some 1], [Some 1, Some 1, Some 1, Some (1::int)],
                     [Some 0, Some 1, Some 1, Some 1], [Some 0, Some 0, Some 0, Some 0]]
   \<and> clearLines [[Some 1, Some 1, Some 1, Some 1], [Some 1, Some 1, Some 1, Some 1],
                  [Some 0, Some 1, Some 1, Some 1], [Some 0, Some 0, Some 0, Some 0]] =
       ([[Some 0, Some 0, Some 0, Some 0], [Some 0, Some 0, Some 0, Some 0],
         [Some 0, Some 1, Some 1, Some 1], [Some 0, Some 0, Some 0, Some 0]], 2)"
proof -
  let ?b = "[[Some 1, Some 1, Some 1, Some 1], [Some 1, Some 1, Some 1, Some 1],
             [Some 0, Some 1, Some 1, Some 1], [Some 0, Some 0, Some 0, Some (0::int)]]"
  have h1: "binary_rows ?b" by (simp add: binary_rows_def)
  have h2: "rectangular 4 ?b" by (simp add: rectangular_def)
  from clearLines_spec [OF h1 h2]
  have "fst (clearLines ?b) =
          replicate (length (filter full_row ?b)) (replicate 4 (Some 0))
            @ filter (\<lambda>row. \<not> full_row row) ?b"
    and "snd (clearLines ?b) = int (length (filter full_row ?b))" by blast+
  then have "clearLines ?b =
       ([[Some 0, Some 0, Some 0, Some 0], [Some 0, Some 0, Some 0, Some 0],
         [Some 0, Some 1, Some 1, Some 1], [Some 0, Some 0, Some 0, Some 0]], 2)"
    by (simp add: prod_eq_iff full_row_def truthy_def numeral_eq_Suc)
  with h1 h2 show ?thesis by blast
qed

section \<open>Placement\<close>

lemma set_loop_cells:
  assumes "rectangular n sh"
  shows "set (loop_cells sh) = {(r, c). r < length sh \<and> c < n}"
proof (cases sh)
  case Nil then show ?thesis by (simp add: loop_cells_def)
next
  case (Cons row0 rest)
  then have "length row0 = n" using assms by (simp add: rectangular_def)
  then show ?thesis unfolding loop_cells_def Cons by auto
qed

lemma rectangular_nth: "rectangular n xs \<Longrightarrow> i < length xs \<Longrightarrow> length (xs ! i) = n"
  by (simp add: rectangular_def list_all_length)

lemma blocked_rect:
  assumes "rectangular w b"
  shows "blocked b nx ny \<longleftrightarrow>
           \<not> (0 \<le> ny \<and> ny < int (length b) \<and> 0 \<le> nx \<and> nx < int w
              \<and> \<not> truthy (b ! nat ny ! nat nx))"
proof (cases "0 \<le> ny \<and> ny < int (length b)")
  case False then show ?thesis by (auto simp: blocked_def)
next
  case True
  then have "nat ny < length b" "0 < length b" by auto
  then have "length (b ! nat ny) = w" "length (b ! 0) = w"
    using assms by (simp_all add: rectangular_nth)
  then show ?thesis using True by (auto simp: blocked_def cell_read_def)
qed

lemma canPlace_rect:
  assumes "rectangular w b" "rectangular n sh"
  shows "canPlace b sh x y \<longleftrightarrow>
     (\<forall>r<length sh. \<forall>c<n. sh ! r ! c \<noteq> 0 \<longrightarrow>
        0 \<le> y + int r \<and> y + int r < int (length b) \<and> 0 \<le> x + int c \<and> x + int c < int w
        \<and> \<not> truthy (b ! nat (y + int r) ! nat (x + int c)))"
proof -
  have rd: "truthy (num_read (sh ! r) c) \<longleftrightarrow> sh ! r ! c \<noteq> 0" if "r < length sh" "c < n" for r c
    using that rectangular_nth [OF assms(2)] by (simp add: num_read_def truthy_def)
  show ?thesis
    unfolding canPlace_def list_all_iff set_loop_cells [OF assms(2)] blocked_rect [OF assms(1)]
    using rd by auto
qed

text \<open>
  C7. On a board of width \<open>w\<close> and a shape matrix of width \<open>n\<close>, canPlace holds exactly
  when every occupied cell of the shape, moved by \<open>(x, y)\<close>, is inside the board and
  on a cell that is not occupied. On the empty board of 4 by 4 cells the square of 2
  by 2 cells can be placed at \<open>(1, 1)\<close> and not at \<open>(3, 3)\<close>.
\<close>

theorem canPlace_iff:
  assumes "rectangular w b" and "rectangular n sh"
  shows "(canPlace b sh x y \<longleftrightarrow>
           (\<forall>r<length sh. \<forall>c<n. sh ! r ! c \<noteq> 0 \<longrightarrow>
              0 \<le> y + int r \<and> y + int r < int (length b)
              \<and> 0 \<le> x + int c \<and> x + int c < int w
              \<and> \<not> truthy (b ! nat (y + int r) ! nat (x + int c))))
       \<and> (\<exists>b0. createBoard 4 4 = Inr b0 \<and> canPlace b0 [[1, 1], [1, 1]] 1 1
                \<and> \<not> canPlace b0 [[1, 1], [1, 1]] 3 3)"
proof -
  have "\<exists>b0. createBoard 4 4 = Inr b0 \<and> canPlace b0 [[1, 1], [1, 1]] 1 1
              \<and> \<not> canPlace b0 [[1, 1], [1, 1]] 3 3"
    by (simp add: createBoard_def canPlace_def loop_cells_def blocked_def num_read_def
        truthy_def cell_read_def)
  with canPlace_rect [OF assms] show ?thesis by blast
qed

theorem canPlace_iff_witness:
  "rectangular 4 (replicate 4 (replicate 4 (Some (0::int))))
   \<and> rectangular 2 [[1, 1], [1, 1::int]]
   \<and> createBoard 4 4 = Inr (replicate 4 (replicate 4 (Some 0)))
   \<and> canPlace (replicate 4 (replicate 4 (Some 0))) [[1, 1], [1, 1]] 1 1
   \<and> \<not> canPlace (replicate 4 (replicate 4 (Some 0))) [[1, 1], [1, 1]] 3 3"
proof -
  let ?b = "replicate 4 (replicate 4 (Some (0::int)))"
  let ?sq = "[[1, 1], [1, 1::int]]"
  have h1: "rectangular 4 ?b" by (simp add: rectangular_def list_all_iff)
  have h2: "rectangular 2 ?sq" by (simp add: rectangular_def)
  have two: "r < 2 \<longleftrightarrow> r = 0 \<or> r = 1" for r :: nat by auto
  from canPlace_iff [OF h1 h2, of 1 1] have "canPlace ?b ?sq 1 1"
    by (simp add: two truthy_def)
  moreover have "\<not> canPlace ?b ?sq 3 3"
  proof
    assume "canPlace ?b ?sq 3 3"
    from canPlace_iff [OF h1 h2, of 3 3, THEN conjunct1, THEN iffD1, OF this, rule_format, of 1 1]
    show False by simp
  qed
  moreover have "createBoard 4 4 = Inr ?b" by (simp add: createBoard_def)
  ultimately show ?thesis using h1 h2 by blast
qed

section \<open>Spawning\<close>

lemma set_SHAPES: "set SHAPES = UNIV"
proof -
  have "k \<in> set SHAPES" for k by (cases k) (simp_all add: SHAPES_def)
  then show ?thesis by blast
qed

lemma floor_scaled_range:
  assumes "0 \<le> u" "u < 1" "0 < n"
  shows "0 \<le> floor_scaled u n \<and> floor_scaled u n < n"
proof -
  have "0 \<le> u * of_int n" using assms by simp
  moreover have "u * of_int n < of_int n" using assms by simp
  ultimately show ?thesis unfolding floor_scaled_def by (simp add: floor_less_iff)
qed

lemma random_unit:
  assumes "unit_draws g"
  shows "0 \<le> fst (random g) \<and> fst (random g) < 1 \<and> unit_draws (snd (random g))"
  using assms by (simp add: random_def unit_draws_def)

lemma spawn_empty:
  assumes "\<forall>k. invt k \<le> 0"
  shows "spawnFromInventory invt g = Inr (\<lparr>spawned = None, consumed = None\<rparr>, invt, g)"
proof -
  have "filter (\<lambda>s. invt s > 0) SHAPES = []"
    using assms by (simp add: filter_empty_conv not_less)
  then show ?thesis by (simp add: spawnFromInventory_def)
qed

lemma spawn_some:
  assumes "0 < invt k0" "unit_draws g"
  shows "\<exists>k. 0 < invt k \<and>
     spawnFromInventory invt g =
       Inr (\<lparr>spawned = Some \<lparr>pshape = k, px = (10 - int (length (PIECE_MAP k ! 0 ! 0))) div 2,
                              py = 0, pr = 0\<rparr>, consumed = Some k\<rparr>,
            invt(k := invt k - 1), snd (random g))"
proof -
  let ?av = "filter (\<lambda>s. invt s > 0) SHAPES"
  let ?idx = "floor_scaled (fst (random g)) (int (length ?av))"
  let ?k = "?av ! nat ?idx"
  have "k0 \<in> set ?av" using assms(1) by (simp add: set_SHAPES)
  then have ne: "?av \<noteq> []" by (metis empty_iff empty_set)
  then have pos: "0 < int (length ?av)" by simp
  have u: "0 \<le> fst (random g)" "fst (random g) < 1"
    using random_unit [OF assms(2)] by simp_all
  have idx: "0 \<le> ?idx" "?idx < int (length ?av)"
    using floor_scaled_range [OF u pos] by simp_all
  then have "nat ?idx < length ?av" by linarith
  then have "?k \<in> set ?av" by (rule nth_mem)
  then have kpos: "0 < invt ?k" by simp
  then have mx: "max 0 (invt ?k - 1) = invt ?k - 1" by simp
  have "spawnFromInventory invt g =
       Inr (\<lparr>spawned = Some \<lparr>pshape = ?k, px = (10 - int (length (PIECE_MAP ?k ! 0 ! 0))) div 2,
                              py = 0, pr = 0\<rparr>, consumed = Some ?k\<rparr>,
            invt(?k := invt ?k - 1), snd (random g))"
    unfolding spawnFromInventory_def Let_def
    using ne idx mx by (simp add: case_prod_beta)
  with kpos show ?thesis by blast
qed

lemma spawn_single:
  assumes "unit_draws g"
  shows "spawnFromInventory (\<lambda>k. if k = k0 then 1 else 0) g =
       Inr (\<lparr>spawned = Some \<lparr>pshape = k0, px = (10 - int (length (PIECE_MAP k0 ! 0 ! 0))) div 2,
                              py = 0, pr = 0\<rparr>, consumed = Some k0\<rparr>,
            (\<lambda>k. 0), snd (random g))"
proof -
  let ?inv = "\<lambda>k. if k = k0 then 1 else (0::int)"
  have "0 < ?inv k0" by simp
  from spawn_some [of ?inv k0 g, OF this assms] obtain k where
    k: "0 < ?inv k" and
    eq: "spawnFromInventory ?inv g =
       Inr (\<lparr>spawned = Some \<lparr>pshape = k, px = (10 - int (length (PIECE_MAP k ! 0 ! 0))) div 2,
                              py = 0, pr = 0\<rparr>, consumed = Some k\<rparr>,
            ?inv(k := ?inv k - 1), snd (random g))" by blast
  from k have "k = k0" by (simp split: if_splits)
  moreover have "?inv(k0 := ?inv k0 - 1) = (\<lambda>k. 0)" by auto
  ultimately show ?thesis using eq by simp
qed

text \<open>
  C5. For an inventory without negative counts and draws in \<open>[0, 1)\<close>, spawning does
  not fail; it returns no piece exactly when every count is zero, and then leaves the
  inventory alone; otherwise the kind of the piece has a positive count, is reported
  as consumed, its count goes down by one, and the piece has rotation 0, row 0 and
  column \<open>\<lfloor>(10 - width) / 2\<rfloor>\<close>, 10 being the board width. With one kind at count 1
  and the others at 0, that kind is spawned and consumed, every count is then 0, and
  the next spawn returns no piece.
\<close>

theorem spawnFromInventory_spec:
  assumes "\<forall>k. 0 \<le> invt k" and "unit_draws g"
  shows "(\<exists>res invt' g'. spawnFromInventory invt g = Inr (res, invt', g')
          \<and> (spawned res = None \<longleftrightarrow> (\<forall>k. invt k = 0))
          \<and> (spawned res = None \<longrightarrow> consumed res = None \<and> invt' = invt)
          \<and> (\<forall>p. spawned res = Some p \<longrightarrow>
                0 < invt (pshape p) \<and> consumed res = Some (pshape p)
                \<and> invt' = invt(pshape p := invt (pshape p) - 1)
                \<and> pr p = 0 \<and> py p = 0
                \<and> px p = (10 - int (length (PIECE_MAP (pshape p) ! 0 ! 0))) div 2))
       \<and> spawnFromInventory (\<lambda>k. if k = k0 then 1 else 0) g =
           Inr (\<lparr>spawned = Some \<lparr>pshape = k0,
                                   px = (10 - int (length (PIECE_MAP k0 ! 0 ! 0))) div 2,
                                   py = 0, pr = 0\<rparr>, consumed = Some k0\<rparr>,
                (\<lambda>k. 0), snd (random g))
       \<and> spawnFromInventory (\<lambda>k. 0) (snd (random g)) =
           Inr (\<lparr>spawned = None, consumed = None\<rparr>, (\<lambda>k. 0), snd (random g))"
proof -
  have gen: "\<exists>res invt' g'. spawnFromInventory invt g = Inr (res, invt', g')
          \<and> (spawned res = None \<longleftrightarrow> (\<forall>k. invt k = 0))
          \<and> (spawned res = None \<longrightarrow> consumed res = None \<and> invt' = invt)
          \<and> (\<forall>p. spawned res = Some p \<longrightarrow>
                0 < invt (pshape p) \<and> consumed res = Some (pshape p)
                \<and> invt' = invt(pshape p := invt (pshape p) - 1)
                \<and> pr p = 0 \<and> py p = 0
                \<and> px p = (10 - int (length (PIECE_MAP (pshape p) ! 0 ! 0))) div 2)"
  proof (cases "\<forall>k. invt k = 0")
    case True
    then have "\<forall>k. invt k \<le> 0" by simp
    then have "spawnFromInventory invt g = Inr (\<lparr>spawned = None, consumed = None\<rparr>, invt, g)"
      by (rule spawn_empty)
    with True show ?thesis by simp
  next
    case False
    then obtain k0 where "invt k0 \<noteq> 0" by blast
    with assms(1) have "0 < invt k0" by (simp add: order.strict_iff_order)
    from spawn_some [of invt k0 g, OF this assms(2)] False show ?thesis by auto
  qed
  have "\<forall>k. (\<lambda>k::Shape. 0::int) k \<le> 0" by simp
  from gen spawn_single [OF assms(2), of k0] spawn_empty [OF this, of "snd (random g)"]
  show ?thesis by blast
qed

theorem spawnFromInventory_spec_witness:
  "(\<forall>k. (0::int) \<le> (\<lambda>k. if k = Shape_T then 2 else 0) k) \<and> unit_draws (\<lambda>n. 1 / 2)
   \<and> spawnFromInventory (\<lambda>k. if k = Shape_I then 1 else 0) (\<lambda>n. 1 / 2) =
           Inr (\<lparr>spawned = Some \<lparr>pshape = Shape_I, px = 3, py = 0, pr = 0\<rparr>, consumed = Some Shape_I\<rparr>,
                (\<lambda>k. 0), (\<lambda>n. 1 / 2))"
proof -
  have h1: "\<forall>k. (0::int) \<le> (\<lambda>k. if k = Shape_T then 2 else 0) k" by simp
  have h2: "unit_draws (\<lambda>n. 1 / 2)" by (simp add: unit_draws_def)
  show ?thesis using h1 h2 spawnFromInventory_spec [OF h1 h2, of Shape_I] by (simp add: random_def)
qed

section \<open>Garbage rows\<close>

lemma cell_write_inside:
  "0 \<le> j \<Longrightarrow> j < int (length row) \<Longrightarrow> cell_write row j v = row[nat j := Some v]"
  by (simp add: cell_write_def)

lemma fill_row_length:
  "\<forall>x\<in>set xs. x < length row \<Longrightarrow> length (fst (fill_row gap xs row g)) = length row"
proof (induction xs arbitrary: row g)
  case Nil then show ?case by simp
next
  case (Cons x xs)
  then have x: "x < length row" by simp
  have len: "length (cell_write row (int x) v) = length row" for v
    using x by (simp add: cell_write_inside)
  show ?case
  proof (cases "int x = gap")
    case True
    then show ?thesis using Cons len by simp
  next
    case False
    then show ?thesis using Cons len by (simp add: case_prod_beta)
  qed
qed

lemma fill_row_unit: "unit_draws g \<Longrightarrow> unit_draws (snd (fill_row gap xs row g))"
proof (induction xs arbitrary: row g)
  case Nil then show ?case by simp
next
  case (Cons x xs)
  from random_unit [OF Cons.prems] have "unit_draws (snd (random g))" by simp
  with Cons show ?case by (simp add: case_prod_beta)
qed

lemma fill_row_gap:
  assumes "0 \<le> gap" "nat gap < length row" "\<forall>x\<in>set xs. x < length row"
    and "nat gap \<in> set xs \<or> row ! nat gap = Some 0"
  shows "fst (fill_row gap xs row g) ! nat gap = Some 0"
  using assms
proof (induction xs arbitrary: row g)
  case Nil then show ?case by simp
next
  case (Cons x xs)
  then have x: "x < length row" by simp
  show ?case
  proof (cases "int x = gap")
    case True
    let ?row = "cell_write row (int x) 0"
    have w: "?row = row[x := Some 0]" using x by (simp add: cell_write_inside)
    have "fst (fill_row gap xs ?row g) ! nat gap = Some 0"
    proof (rule Cons.IH)
      show "0 \<le> gap" by fact
      show "nat gap < length ?row" using Cons.prems(2) w by simp
      show "\<forall>x\<in>set xs. x < length ?row" using Cons.prems(3) w by simp
      show "nat gap \<in> set xs \<or> ?row ! nat gap = Some 0"
        using True x w by auto
    qed
    then show ?thesis using True by simp
  next
    case False
    let ?v = "if fst (random g) < 9 / 10 then 1 else (0::int)"
    let ?row = "cell_write row (int x) ?v"
    have ne: "x \<noteq> nat gap" using False Cons.prems(1) by auto
    have w: "?row = row[x := Some ?v]" using x by (simp add: cell_write_inside)
    have "fst (fill_row gap xs ?row (snd (random g))) ! nat gap = Some 0"
    proof (rule Cons.IH)
      show "0 \<le> gap" by fact
      show "nat gap < length ?row" using Cons.prems(2) w by simp
      show "\<forall>x\<in>set xs. x < length ?row" using Cons.prems(3) w by simp
      show "nat gap \<in> set xs \<or> ?row ! nat gap = Some 0"
        using Cons.prems(4) ne w by auto
    qed
    then show ?thesis using False by (simp add: case_prod_beta)
  qed
qed

lemma garbage_row_ok:
  assumes "1 \<le> w" "unit_draws g" "0 \<le> y" "y < int (length b)" "length (b ! nat y) = nat w"
  shows "\<exists>row g'. garbage_row w y b g = Inr (b[nat y := row], g') \<and> length row = nat w
           \<and> Some 0 \<in> set row \<and> unit_draws g'"
proof -
  let ?u = "fst (random g)" and ?g1 = "snd (random g)"
  let ?gap = "floor_scaled ?u w"
  let ?res = "fill_row ?gap [0..<nat w] (b ! nat y) ?g1"
  have u: "0 \<le> ?u" "?u < 1" "unit_draws ?g1" using random_unit [OF assms(2)] by simp_all
  have gap: "0 \<le> ?gap" "?gap < w" using floor_scaled_range [OF u(1,2), of w] assms(1) by simp_all
  have inr: "\<forall>x\<in>set [0..<nat w]. x < length (b ! nat y)" using assms(5) by simp
  have len: "length (fst ?res) = nat w" using fill_row_length [OF inr] assms(5) by simp
  have "fst ?res ! nat ?gap = Some 0"
  proof (rule fill_row_gap)
    show "0 \<le> ?gap" by fact
    show "nat ?gap < length (b ! nat y)" using gap assms(5) by simp
    show "\<forall>x\<in>set [0..<nat w]. x < length (b ! nat y)" by fact
    show "nat ?gap \<in> set [0..<nat w] \<or> b ! nat y ! nat ?gap = Some 0" using gap by simp
  qed
  moreover have "nat ?gap < length (fst ?res)" using gap len by simp
  ultimately have mem: "Some 0 \<in> set (fst ?res)" by (metis nth_mem)
  have notall: "\<not> list_all (\<lambda>v. v = None \<or> v = Some 1) (fst ?res)"
  proof
    assume "list_all (\<lambda>v. v = None \<or> v = Some 1) (fst ?res)"
    with mem have "Some (0::int) = None \<or> Some (0::int) = Some 1"
      unfolding list_all_iff by blast
    then show False by simp
  qed
  have "garbage_row w y b g = Inr (b[nat y := fst ?res], snd ?res)"
    unfolding garbage_row_def Let_def using assms(3,4) notall by (simp add: case_prod_beta)
  moreover have "unit_draws (snd ?res)" using u(3) by (rule fill_row_unit)
  ultimately show ?thesis using len mem by blast
qed

lemma rectangular_update:
  "rectangular n xs \<Longrightarrow> length row = n \<Longrightarrow> rectangular n (xs[i := row])"
  by (auto simp: rectangular_def list_all_iff dest!: set_update_subset_insert [THEN subsetD])

lemma garbage_rows_ok:
  assumes "1 \<le> w" "unit_draws g" "rectangular (nat w) b"
    and "\<forall>i\<in>set is. 0 \<le> h - 1 - int i \<and> h - 1 - int i < int (length b)"
  shows "\<exists>b' g'. garbage_rows h w is b g = Inr (b', g') \<and> length b' = length b
           \<and> rectangular (nat w) b' \<and> unit_draws g'
           \<and> (\<forall>j<length b. (\<exists>i\<in>set is. int j = h - 1 - int i) \<longrightarrow> Some 0 \<in> set (b' ! j))
           \<and> (\<forall>j<length b. (\<forall>i\<in>set is. int j \<noteq> h - 1 - int i) \<longrightarrow> b' ! j = b ! j)"
  using assms
proof (induction "is" arbitrary: b g)
  case Nil then show ?case by simp
next
  case (Cons i rest)
  let ?y = "h - 1 - int i"
  have y: "0 \<le> ?y" "?y < int (length b)" using Cons.prems(4) by simp_all
  then have "nat ?y < length b" by linarith
  then have "length (b ! nat ?y) = nat w" using Cons.prems(3) by (simp add: rectangular_nth)
  from garbage_row_ok [OF Cons.prems(1,2) y this] obtain row g1 where
    r: "garbage_row w ?y b g = Inr (b[nat ?y := row], g1)" "length row = nat w"
       "Some 0 \<in> set row" "unit_draws g1" by blast
  let ?b1 = "b[nat ?y := row]"
  have "\<exists>b' g'. garbage_rows h w rest ?b1 g1 = Inr (b', g') \<and> length b' = length ?b1
           \<and> rectangular (nat w) b' \<and> unit_draws g'
           \<and> (\<forall>j<length ?b1. (\<exists>i\<in>set rest. int j = h - 1 - int i) \<longrightarrow> Some 0 \<in> set (b' ! j))
           \<and> (\<forall>j<length ?b1. (\<forall>i\<in>set rest. int j \<noteq> h - 1 - int i) \<longrightarrow> b' ! j = ?b1 ! j)"
  proof (rule Cons.IH)
    show "1 \<le> w" by fact
    show "unit_draws g1" by fact
    show "rectangular (nat w) ?b1" using Cons.prems(3) r(2) by (rule rectangular_update)
    show "\<forall>i\<in>set rest. 0 \<le> h - 1 - int i \<and> h - 1 - int i < int (length ?b1)"
      using Cons.prems(4) by simp
  qed
  then obtain b' g' where
    ih: "garbage_rows h w rest ?b1 g1 = Inr (b', g')" "length b' = length b"
        "rectangular (nat w) b'" "unit_draws g'"
        "\<forall>j<length b. (\<exists>i\<in>set rest. int j = h - 1 - int i) \<longrightarrow> Some 0 \<in> set (b' ! j)"
        "\<forall>j<length b. (\<forall>i\<in>set rest. int j \<noteq> h - 1 - int i) \<longrightarrow> b' ! j = ?b1 ! j"
    by auto
  have run: "garbage_rows h w (i # rest) b g = Inr (b', g')" using r(1) ih(1) by simp
  have hit: "Some 0 \<in> set (b' ! j)" if "j < length b" "\<exists>i'\<in>set (i # rest). int j = h - 1 - int i'" for j
  proof (cases "\<exists>i'\<in>set rest. int j = h - 1 - int i'")
    case True with ih(5) that(1) show ?thesis by blast
  next
    case False
    with that(2) have j: "int j = ?y" by auto
    then have "nat ?y = j" by simp
    with False ih(6) that(1) have "b' ! j = ?b1 ! j" by blast
    then show ?thesis using r(3) that(1) \<open>nat ?y = j\<close> by simp
  qed
  have miss: "b' ! j = b ! j" if "j < length b" "\<forall>i'\<in>set (i # rest). int j \<noteq> h - 1 - int i'" for j
  proof -
    from that have "b' ! j = ?b1 ! j" using ih(6) by simp
    moreover have "nat ?y \<noteq> j" using that(2) y by auto
    ultimately show ?thesis by simp
  qed
  from run ih(2,3,4) hit miss show ?case by blast
qed

lemma generateGarbage_ok:
  assumes "0 \<le> h" "1 \<le> w" "rows \<le> h" "unit_draws g"
  shows "\<exists>b g'. generateGarbage h w rows g = Inr (b, g') \<and> int (length b) = h
           \<and> rectangular (nat w) b \<and> unit_draws g'
           \<and> (\<forall>j<length b. int j < h - rows \<longrightarrow> b ! j = replicate (nat w) (Some 0))
           \<and> (\<forall>j<length b. h - rows \<le> int j \<longrightarrow> Some 0 \<in> set (b ! j))"
proof -
  let ?b0 = "replicate (nat h) (replicate (nat w) (Some (0::int)))"
  have cb: "createBoard h w = Inr ?b0" using assms(1,2) by (auto simp: createBoard_def)
  have rect: "rectangular (nat w) ?b0" by (simp add: rectangular_def list_all_iff)
  have rng: "\<forall>i\<in>set [0..<nat rows]. 0 \<le> h - 1 - int i \<and> h - 1 - int i < int (length ?b0)"
    using assms(1,3) by auto
  from garbage_rows_ok [OF assms(2,4) rect rng] obtain b g' where
    r: "garbage_rows h w [0..<nat rows] ?b0 g = Inr (b, g')" "length b = length ?b0"
       "rectangular (nat w) b" "unit_draws g'"
       "\<forall>j<length ?b0. (\<exists>i\<in>set [0..<nat rows]. int j = h - 1 - int i) \<longrightarrow> Some 0 \<in> set (b ! j)"
       "\<forall>j<length ?b0. (\<forall>i\<in>set [0..<nat rows]. int j \<noteq> h - 1 - int i) \<longrightarrow> b ! j = ?b0 ! j"
    by blast
  have gen: "generateGarbage h w rows g = Inr (b, g')" using cb r(1) by (simp add: generateGarbage_def)
  have len: "int (length b) = h" using r(2) assms(1) by simp
  have top: "b ! j = replicate (nat w) (Some 0)" if "j < length b" "int j < h - rows" for j
  proof -
    have "\<forall>i\<in>set [0..<nat rows]. int j \<noteq> h - 1 - int i" using that(2) by auto
    with r(6) that(1) r(2) have "b ! j = ?b0 ! j" by simp
    then show ?thesis using that(1) r(2) by simp
  qed
  have bot: "Some 0 \<in> set (b ! j)" if "j < length b" "h - rows \<le> int j" for j
  proof -
    let ?i = "nat (h - 1 - int j)"
    have "int j < h" using that(1) len by simp
    then have "?i \<in> set [0..<nat rows]" "int j = h - 1 - int ?i" using that(2) by auto
    with r(5) that(1) r(2) show ?thesis by (metis)
  qed
  from gen len r(3,4) top bot show ?thesis by blast
qed

section \<open>Merging and the updaters\<close>

lemma cell_read_write:
  "cell_read (cell_write row k v) (int j) = (if k = int j then Some v else cell_read row (int j))"
proof -
  consider "k < 0" | "0 \<le> k" "k < int (length row)" | "int (length row) \<le> k" by linarith
  then show ?thesis
  proof cases
    case 1 then show ?thesis by (simp add: cell_write_def)
  next
    case 2
    then have "cell_write row k v = row[nat k := Some v]" by (simp add: cell_write_def)
    then show ?thesis using 2 by (auto simp: cell_read_def nth_list_update)
  next
    case 3
    then have w: "cell_write row k v = row @ replicate (nat k - length row) None @ [Some v]"
      by (simp add: cell_write_def)
    have len: "length (cell_write row k v) = Suc (nat k)" unfolding w using 3 by simp
    show ?thesis
    proof (cases "j < length row")
      case True then show ?thesis using 3 unfolding w by (simp add: cell_read_def nth_append)
    next
      case False
      then show ?thesis using 3 unfolding w
        by (auto simp: cell_read_def nth_append nth_Cons' not_less)
    qed
  qed
qed

lemma merge_cells_spec:
  assumes "merge_cells sh x y cs b = Inr m"
  shows "length m = length b \<and>
     (\<forall>i<length b. \<forall>j. cell_read (m ! i) (int j) =
        (if list_ex (\<lambda>(r, c). truthy (num_read (sh ! r) c) \<and> y + int r = int i \<and> x + int c = int j) cs
         then Some 1 else cell_read (b ! i) (int j)))"
  using assms
proof (induction cs arbitrary: b)
  case Nil then show ?case by simp
next
  case (Cons rc cs)
  obtain r c where rc: "rc = (r, c)" by (cases rc)
  show ?case
  proof (cases "truthy (num_read (sh ! r) c)")
    case False
    with Cons.prems rc have "merge_cells sh x y cs b = Inr m" by simp
    from Cons.IH [OF this] False rc show ?thesis by simp
  next
    case True
    with Cons.prems rc obtain b1 where
      w: "board_write b (y + int r) (x + int c) 1 = Inr b1" and
      m: "merge_cells sh x y cs b1 = Inr m"
      by (auto split: sum.splits)
    from w have rng: "0 \<le> y + int r" "y + int r < int (length b)"
      and b1: "b1 = b[nat (y + int r) := cell_write (b ! nat (y + int r)) (x + int c) 1]"
      by (auto simp: board_write_def split: if_splits)
    have len1: "length b1 = length b" using b1 by simp
    have rd: "cell_read (b1 ! i) (int j) =
        (if y + int r = int i \<and> x + int c = int j then Some 1 else cell_read (b ! i) (int j))"
      if "i < length b" for i j
    proof (cases "nat (y + int r) = i")
      case True
      then have "y + int r = int i" using rng by simp
      then show ?thesis using that b1 by (simp add: cell_read_write)
    next
      case False
      then have "y + int r \<noteq> int i" by auto
      then show ?thesis using False b1 by simp
    qed
    from Cons.IH [OF m] have ih: "length m = length b1"
      "\<And>i j. i < length b1 \<Longrightarrow> cell_read (m ! i) (int j) =
        (if list_ex (\<lambda>(r, c). truthy (num_read (sh ! r) c) \<and> y + int r = int i \<and> x + int c = int j) cs
         then Some 1 else cell_read (b1 ! i) (int j))" by simp_all
    show ?thesis
      using ih(1) len1 ih(2) rd True rc by simp
  qed
qed

lemma merge_spec:
  assumes "merge b sh x y = Inr m"
  shows "length m = length b \<and>
     (\<forall>i<length b. \<forall>j. cell_read (m ! i) (int j) =
        (if covers sh x y i j then Some 1 else cell_read (b ! i) (int j)))"
  using merge_cells_spec [of sh x y "loop_cells sh" b m] assms
  unfolding merge_def covers_def by simp

lemma merge_cells_ok:
  assumes "list_all (\<lambda>(r, c). \<not> truthy (num_read (sh ! r) c)
                 \<or> (0 \<le> y + int r \<and> y + int r < int (length b))) cs"
  shows "\<exists>m. merge_cells sh x y cs b = Inr m"
  using assms
proof (induction cs arbitrary: b)
  case Nil then show ?case by simp
next
  case (Cons rc cs)
  obtain r c where rc: "rc = (r, c)" by (cases rc)
  show ?case
  proof (cases "truthy (num_read (sh ! r) c)")
    case False
    with Cons rc show ?thesis by simp
  next
    case True
    let ?b1 = "b[nat (y + int r) := cell_write (b ! nat (y + int r)) (x + int c) 1]"
    from True Cons.prems rc have w: "board_write b (y + int r) (x + int c) 1 = Inr ?b1"
      by (simp add: board_write_def)
    have "\<exists>m. merge_cells sh x y cs ?b1 = Inr m"
      using Cons.prems by (intro Cons.IH) simp
    with True w rc show ?thesis by simp
  qed
qed

lemma merge_ok: "in_rows b sh y \<Longrightarrow> \<exists>m. merge b sh x y = Inr m"
  unfolding in_rows_def merge_def by (rule merge_cells_ok)

lemma step_over: "over s \<Longrightarrow> step s = Inr s"
  by (simp add: step_def)

lemma step_down:
  assumes "piece s = Some p" "\<not> over s" "pieceMatrix (pshape p) (pr p) = Inr sh"
    and "canPlace (board s) sh (px p) (py p + 1)"
  shows "step s = Inr (s\<lparr>piece := Some (p\<lparr>py := py p + 1\<rparr>)\<rparr>)"
  using assms by (simp add: step_def)

lemma step_land:
  assumes "piece s = Some p" "\<not> over s" "pieceMatrix (pshape p) (pr p) = Inr sh"
    and "\<not> canPlace (board s) sh (px p) (py p + 1)"
  shows "step s = (case merge (board s) sh (px p) (py p) of
                     Inl e \<Rightarrow> Inl e
                   | Inr m \<Rightarrow> Inr (s\<lparr>board := fst (clearLines m), piece := None,
                                     score := score s + snd (clearLines m) * 100\<rparr>))"
  using assms by (simp add: step_def case_prod_beta split: sum.splits)

lemma step_keeps_over: "step s = Inr s' \<Longrightarrow> over s' = over s"
  by (auto simp: step_def Let_def case_prod_beta split: if_splits option.splits sum.splits)

lemma move_keeps_over: "move dx s = Inr s' \<Longrightarrow> over s' = over s"
  by (auto simp: move_def Let_def split: if_splits option.splits sum.splits)

lemma rotate_keeps_over: "rotate s = Inr s' \<Longrightarrow> over s' = over s"
  by (auto simp: rotate_def Let_def split: if_splits option.splits sum.splits)

lemma hardDrop_keeps_over: "hardDrop s = Some (Inr s') \<Longrightarrow> over s' = over s"
  by (auto simp: hardDrop_def split: option.splits sum.splits dest!: step_keeps_over)

lemma pieceMatrix_Inr_iff:
  "(\<exists>m. pieceMatrix k i = Inr m) \<longleftrightarrow> 0 \<le> i \<and> i < int (length (PIECE_MAP k))"
  by (simp add: pieceMatrix_def)

lemma pieceMatrix_Inl_iff:
  "pieceMatrix k i = Inl TypeError \<longleftrightarrow> \<not> (0 \<le> i \<and> i < int (length (PIECE_MAP k)))"
  by (simp add: pieceMatrix_def)

lemma PIECE_MAP_nonempty: "0 < length (PIECE_MAP k)"
  by (cases k) simp_all

lemma js_rem_next:
  assumes "- 1 \<le> i" "0 < n"
  shows "js_rem (i + 1) n = (i + 1) mod n \<and> 0 \<le> js_rem (i + 1) n \<and> js_rem (i + 1) n < n"
  using assms by (simp add: js_rem_def)

section \<open>Claims about the garbage rows\<close>

text \<open>
  C8. For \<open>h \<ge> 0\<close>, \<open>w \<ge> 1\<close>, \<open>rows \<le> h\<close> and draws in \<open>[0, 1)\<close>,
  generateGarbage returns a board of \<open>h\<close> rows of \<open>w\<close> cells each, whose rows above the
  bottom \<open>rows\<close> rows are empty, and each of the bottom \<open>rows\<close> rows has a cell that is
  0. With \<open>w = 0\<close> the statement fails: the forced gap is written into the empty row,
  which then has one cell.
\<close>

theorem generateGarbage_spec:
  assumes "0 \<le> h" and "1 \<le> w" and "rows \<le> h" and "unit_draws g"
  shows "\<exists>b g'. generateGarbage h w rows g = Inr (b, g') \<and> int (length b) = h
           \<and> rectangular (nat w) b
           \<and> (\<forall>j<length b. int j < h - rows \<longrightarrow> b ! j = replicate (nat w) (Some 0))
           \<and> (\<forall>j<length b. h - rows \<le> int j \<longrightarrow> Some 0 \<in> set (b ! j))"
  using generateGarbage_ok [OF assms] by blast

theorem generateGarbage_spec_witness:
  "(0::int) \<le> 3 \<and> (1::int) \<le> 4 \<and> (2::int) \<le> 3
   \<and> unit_draws (\<lambda>n. if n = 3 then 95 / 100 else 1 / 2)
   \<and> map_sum id fst (generateGarbage 3 4 2 (\<lambda>n. if n = 3 then 95 / 100 else 1 / 2)) =
       Inr [[Some 0, Some 0, Some 0, Some 0], [Some 1, Some 1, Some 0, Some 1],
            [Some 1, Some 1, Some 0, Some 0]]"
proof -
  let ?g = "\<lambda>n::nat. if n = 3 then 95 / 100 else (1 / 2 :: real)"
  have h4: "unit_draws ?g" by (simp add: unit_draws_def)
  have ev: "map_sum id fst (generateGarbage 3 4 2 ?g) =
       Inr [[Some 0, Some 0, Some 0, Some 0], [Some 1, Some 1, Some 0, Some 1],
            [Some 1, Some 1, Some 0, Some 0]]"
    by (simp add: generateGarbage_def createBoard_def garbage_row_def random_def
        floor_scaled_def cell_write_def numeral_eq_Suc upt_rec)
  from generateGarbage_spec [of 3 4 2 ?g] h4 ev show ?thesis by simp
qed

theorem generateGarbage_zero_width_counterexample:
  "unit_draws (\<lambda>n. 0)
   \<and> map_sum id fst (generateGarbage 1 0 1 (\<lambda>n. 0)) = Inr [[Some 0]]
   \<and> \<not> rectangular (nat 0) [[Some (0::int)]]"
  by (simp add: generateGarbage_def createBoard_def garbage_row_def random_def floor_scaled_def
      cell_write_def unit_draws_def rectangular_def)

section \<open>Claims about the updaters\<close>

text \<open>
  C1. For a game state with an active piece whose terminal flag is not
  set and whose rotation index has a matrix \<open>sh\<close> in the table, one tick does this.
  When \<open>sh\<close> can be placed at \<open>(x, y + 1)\<close>, the piece moves one row down and nothing
  else changes. When it cannot and merge returns a board \<open>m\<close>, the new board is that of
  clearLines on \<open>m\<close>, the score grows by 100 for each cleared line, and there is no
  active piece; \<open>m\<close> has the rows of the board, with 1 in the cells under an occupied
  cell of the piece at \<open>(x, y)\<close> and the other cells as before. merge returns a board
  whenever the occupied cells of the piece are in rows of the board. (With the terminal
  flag set, a tick returns the state as it is.)
\<close>

theorem step_falling:
  assumes "piece s = Some p" and "\<not> over s" and "pieceMatrix (pshape p) (pr p) = Inr sh"
  shows "(canPlace (board s) sh (px p) (py p + 1) \<longrightarrow>
            step s = Inr (s\<lparr>piece := Some (p\<lparr>py := py p + 1\<rparr>)\<rparr>))
       \<and> (\<not> canPlace (board s) sh (px p) (py p + 1) \<longrightarrow>
            (\<forall>m. merge (board s) sh (px p) (py p) = Inr m \<longrightarrow>
               step s = Inr (s\<lparr>board := fst (clearLines m), piece := None,
                               score := score s + snd (clearLines m) * 100\<rparr>)
               \<and> length m = length (board s)
               \<and> (\<forall>i<length m. \<forall>j. cell_read (m ! i) (int j) =
                     (if covers sh (px p) (py p) i j then Some 1
                      else cell_read (board s ! i) (int j)))))
       \<and> (in_rows (board s) sh (py p) \<longrightarrow> (\<exists>m. merge (board s) sh (px p) (py p) = Inr m))"
proof -
  have a: "step s = Inr (s\<lparr>piece := Some (p\<lparr>py := py p + 1\<rparr>)\<rparr>)"
    if "canPlace (board s) sh (px p) (py p + 1)"
    using assms that by (rule step_down)
  have b: "step s = Inr (s\<lparr>board := fst (clearLines m), piece := None,
                           score := score s + snd (clearLines m) * 100\<rparr>)
           \<and> length m = length (board s)
           \<and> (\<forall>i<length m. \<forall>j. cell_read (m ! i) (int j) =
                 (if covers sh (px p) (py p) i j then Some 1 else cell_read (board s ! i) (int j)))"
    if "\<not> canPlace (board s) sh (px p) (py p + 1)" "merge (board s) sh (px p) (py p) = Inr m" for m
    using step_land [OF assms that(1)] merge_spec [OF that(2)] that(2) by simp
  have c: "\<exists>m. merge (board s) sh (px p) (py p) = Inr m" if "in_rows (board s) sh (py p)"
    using that by (rule merge_ok)
  from a b c show ?thesis by blast
qed

theorem step_falling_witness:
  "pieceMatrix Shape_O 0 = Inr [[1, 1], [1, 1]]
   \<and> step \<lparr>board = [[Some 0, Some 0], [Some 0, Some 0], [Some 0, Some 0], [Some 1, Some 0]],
            piece = Some \<lparr>pshape = Shape_O, px = 0, py = 0, pr = 0\<rparr>, over = False, score = 0\<rparr>
      = Inr \<lparr>board = [[Some 0, Some 0], [Some 0, Some 0], [Some 0, Some 0], [Some 1, Some 0]],
            piece = Some \<lparr>pshape = Shape_O, px = 0, py = 1, pr = 0\<rparr>, over = False, score = 0\<rparr>
   \<and> step \<lparr>board = [[Some 0, Some 0], [Some 0, Some 0], [Some 0, Some 0], [Some 1, Some 0]],
            piece = Some \<lparr>pshape = Shape_O, px = 0, py = 1, pr = 0\<rparr>, over = False, score = 0\<rparr>
      = Inr \<lparr>board = [[Some 0, Some 0], [Some 0, Some 0], [Some 0, Some 0], [Some 1, Some 0]],
            piece = None, over = False, score = 200\<rparr>"
proof -
  let ?b = "[[Some 0, Some 0], [Some 0, Some 0], [Some 0, Some 0], [Some 1, Some (0::int)]]"
  let ?p0 = "\<lparr>pshape = Shape_O, px = 0, py = 0, pr = 0\<rparr>"
  let ?p1 = "\<lparr>pshape = Shape_O, px = 0, py = 1, pr = 0\<rparr>"
  let ?s0 = "\<lparr>board = ?b, piece = Some ?p0, over = False, score = 0\<rparr>"
  let ?s1 = "\<lparr>board = ?b, piece = Some ?p1, over = False, score = 0\<rparr>"
  let ?sq = "[[1, 1], [1, 1::int]]"
  have sq: "pieceMatrix Shape_O 0 = Inr ?sq" by (simp add: pieceMatrix_def)
  have ev: "canPlace ?b ?sq 0 1" "\<not> canPlace ?b ?sq 0 2"
    by (simp_all add: canPlace_def loop_cells_def blocked_def num_read_def truthy_def cell_read_def)
  have mg: "merge ?b ?sq 0 1 = Inr [[Some 0, Some 0], [Some 1, Some 1], [Some 1, Some 1], [Some 1, Some 0]]"
    by (simp add: merge_def loop_cells_def num_read_def truthy_def board_write_def cell_write_def)
  have cl: "clearLines [[Some 0, Some 0], [Some 1, Some 1], [Some 1, Some 1], [Some 1, Some (0::int)]]
      = (?b, 2)"
    by (simp add: clearLines_def unshift_rows_eq)
  have d0: "step ?s0 = Inr ?s1"
    using step_falling [of ?s0 ?p0 ?sq] sq ev(1) by simp
  have d1: "step ?s1 = Inr \<lparr>board = ?b, piece = None, over = False, score = 200\<rparr>"
    using step_falling [of ?s1 ?p1 ?sq] sq ev(2) mg cl by simp
  from sq d0 d1 show ?thesis by simp
qed

theorem step_over_counterexample:
  "pieceMatrix Shape_O 0 = Inr [[1, 1], [1, 1]]
   \<and> canPlace (replicate 4 (replicate 4 (Some 0))) [[1, 1], [1, 1]] 0 1
   \<and> step \<lparr>board = replicate 4 (replicate 4 (Some 0)),
            piece = Some \<lparr>pshape = Shape_O, px = 0, py = 0, pr = 0\<rparr>, over = True, score = 0\<rparr>
      = Inr \<lparr>board = replicate 4 (replicate 4 (Some 0)),
            piece = Some \<lparr>pshape = Shape_O, px = 0, py = 0, pr = 0\<rparr>, over = True, score = 0\<rparr>"
  by (simp add: step_def pieceMatrix_def canPlace_def loop_cells_def blocked_def num_read_def
      truthy_def cell_read_def)

text \<open>
  A piece that reaches below the board, here the upright bar of four cells on a board of
  two rows, makes merge, and with it the tick, throw.
\<close>

lemma step_merge_fault_example:
  "pieceMatrix Shape_I 1 = Inr [[1], [1], [1], [1]]
   \<and> \<not> canPlace [[Some 0, Some 0], [Some 0, Some 1]] [[1], [1], [1], [1]] 0 1
   \<and> merge [[Some 0, Some 0], [Some 0, Some 1]] [[1], [1], [1], [1]] 0 0 = Inl TypeError
   \<and> step \<lparr>board = [[Some 0, Some 0], [Some 0, Some 1]],
            piece = Some \<lparr>pshape = Shape_I, px = 0, py = 0, pr = 1\<rparr>, over = False, score = 0\<rparr>
      = Inl TypeError"
  by (simp add: step_def pieceMatrix_def canPlace_def merge_def loop_cells_def blocked_def
      num_read_def truthy_def cell_read_def board_write_def cell_write_def)

lemma draw_bad_index:
  assumes "piece s = Some p" "pieceMatrix (pshape p) (pr p) = Inl TypeError"
  shows "draw w h s = Inl TypeError"
  using assms by (simp add: draw_def Let_def split: list.splits)

text \<open>
  C3. The lookup in the geometry table uses the rotation index as it is:
  it gives a matrix exactly for an index from 0 up to, and not including, the number
  of rotation states of the kind. Only rotate takes a remainder: for an index of at
  least \<open>-1\<close> (so also for one at or beyond the number of states) the next index is
  \<open>(i + 1) mod n\<close>, it has a matrix, and rotate does not throw. With an active piece
  whose index is outside the table, move, hardDrop and draw throw a TypeError, and so
  does step unless the terminal flag is set.
\<close>

theorem rotation_index_lookup:
  "((\<exists>m. pieceMatrix k i = Inr m) \<longleftrightarrow> 0 \<le> i \<and> i < int (length (PIECE_MAP k)))
   \<and> (- 1 \<le> i \<longrightarrow>
        js_rem (i + 1) (int (length (PIECE_MAP k))) = (i + 1) mod int (length (PIECE_MAP k))
        \<and> (\<exists>m. pieceMatrix k (js_rem (i + 1) (int (length (PIECE_MAP k)))) = Inr m))
   \<and> (piece s = Some p \<and> - 1 \<le> pr p \<longrightarrow> (\<exists>s'. rotate s = Inr s'))
   \<and> (piece s = Some p \<and> \<not> (0 \<le> pr p \<and> pr p < int (length (PIECE_MAP (pshape p)))) \<longrightarrow>
        move dx s = Inl TypeError \<and> hardDrop s = Some (Inl TypeError)
        \<and> draw w h s = Inl TypeError \<and> (\<not> over s \<longrightarrow> step s = Inl TypeError))"
proof -
  let ?n = "\<lambda>k. int (length (PIECE_MAP k))"
  have pos: "0 < ?n k'" for k' using PIECE_MAP_nonempty [of k'] by simp
  have nxt: "js_rem (i + 1) (?n k) = (i + 1) mod ?n k
             \<and> (\<exists>m. pieceMatrix k (js_rem (i + 1) (?n k)) = Inr m)" if "- 1 \<le> i"
    using js_rem_next [OF that pos [of k]] pieceMatrix_Inr_iff [of k "js_rem (i + 1) (?n k)"]
    by simp
  have rot: "\<exists>s'. rotate s = Inr s'" if "piece s = Some p \<and> - 1 \<le> pr p"
  proof -
    from that js_rem_next [OF _ pos [of "pshape p"], of "pr p"]
    obtain sh where "pieceMatrix (pshape p) (js_rem (pr p + 1) (?n (pshape p))) = Inr sh"
      using pieceMatrix_Inr_iff [of "pshape p" "js_rem (pr p + 1) (?n (pshape p))"] by auto
    with that show ?thesis by (simp add: rotate_def Let_def)
  qed
  have bad: "move dx s = Inl TypeError \<and> hardDrop s = Some (Inl TypeError)
        \<and> draw w h s = Inl TypeError \<and> (\<not> over s \<longrightarrow> step s = Inl TypeError)"
    if "piece s = Some p \<and> \<not> (0 \<le> pr p \<and> pr p < ?n (pshape p))"
  proof -
    from that have l: "pieceMatrix (pshape p) (pr p) = Inl TypeError"
      using pieceMatrix_Inl_iff [of "pshape p" "pr p"] by simp
    with that draw_bad_index [of s p w h] show ?thesis
      by (simp add: move_def hardDrop_def step_def)
  qed
  from pieceMatrix_Inr_iff [of k i] nxt rot bad show ?thesis by blast
qed

theorem rotation_index_lookup_witness:
  "piece \<lparr>board = replicate 4 (replicate 4 (Some 0)),
          piece = Some \<lparr>pshape = Shape_I, px = 0, py = 0, pr = 5\<rparr>, over = False, score = 0\<rparr>
     = Some \<lparr>pshape = Shape_I, px = 0, py = 0, pr = 5\<rparr>
   \<and> rotate \<lparr>board = replicate 4 (replicate 4 (Some 0)),
          piece = Some \<lparr>pshape = Shape_I, px = 0, py = 0, pr = 5\<rparr>, over = False, score = 0\<rparr>
     = Inr \<lparr>board = replicate 4 (replicate 4 (Some 0)),
          piece = Some \<lparr>pshape = Shape_I, px = 0, py = 0, pr = 0\<rparr>, over = False, score = 0\<rparr>
   \<and> move 1 \<lparr>board = replicate 4 (replicate 4 (Some 0)),
          piece = Some \<lparr>pshape = Shape_I, px = 0, py = 0, pr = 5\<rparr>, over = False, score = 0\<rparr>
     = Inl TypeError
   \<and> (\<exists>m. pieceMatrix Shape_T 3 = Inr m) \<and> pieceMatrix Shape_T 4 = Inl TypeError"
proof -
  let ?p = "\<lparr>pshape = Shape_I, px = 0, py = 0, pr = 5\<rparr>"
  let ?s = "\<lparr>board = replicate 4 (replicate 4 (Some 0)), piece = Some ?p, over = False, score = 0\<rparr>"
  have rt: "rotate ?s = Inr (?s\<lparr>piece := Some (?p\<lparr>pr := 0\<rparr>)\<rparr>)"
    by (simp add: rotate_def js_rem_def pieceMatrix_def canPlace_def loop_cells_def blocked_def
        num_read_def truthy_def cell_read_def)
  have t4: "pieceMatrix Shape_T 4 = Inl TypeError" by (simp add: pieceMatrix_def)
  from rotation_index_lookup [of Shape_T 3 ?s ?p 1 0 0] rt t4 show ?thesis by simp
qed

theorem step_rotation_index_counterexample:
  "step \<lparr>board = replicate 4 (replicate 4 (Some 0)),
         piece = Some \<lparr>pshape = Shape_I, px = 0, py = 0, pr = 2\<rparr>, over = False, score = 0\<rparr>
     = Inl TypeError
   \<and> pieceMatrix Shape_I (2 mod int (length (PIECE_MAP Shape_I))) = Inr [[1, 1, 1, 1]]"
  by (simp add: step_def pieceMatrix_def)

lemma ensurePiece_starved:
  assumes "piece (game pl) = None" "\<forall>k. inventory pl k \<le> 0"
  shows "ensurePiece pl g = Inr (pl\<lparr>running := False\<rparr>, g)"
  using assms spawn_empty [of "inventory pl" g] by (simp add: ensurePiece_def)

lemma ensurePiece_keeps_over: "ensurePiece pl g = Inr (pl', g') \<Longrightarrow> over (game pl') = over (game pl)"
  by (auto simp: ensurePiece_def split: option.splits sum.splits prod.splits)

lemma reset_not_over: "reset pl g = Inr (pl', g') \<Longrightarrow> \<not> over (game pl')"
  by (auto simp: reset_def split: sum.splits prod.splits)

lemma reachable_not_over: "reachable pl \<Longrightarrow> \<not> over (game pl)"
proof (induction rule: reachable.induct)
  case (tick pl s') then show ?case using step_keeps_over by simp
next
  case (shift pl dx s') then show ?case using move_keeps_over by simp
next
  case (turn pl s') then show ?case using rotate_keeps_over by simp
next
  case (drop pl s') then show ?case using hardDrop_keeps_over by simp
next
  case (ensure pl g pl' g') then show ?case using ensurePiece_keeps_over by blast
next
  case (restart pl g pl' g') then show ?case using reset_not_over by blast
qed simp_all

lemma garbage_const:
  "generateGarbage 20 10 2 (\<lambda>n. 0) =
     Inr (replicate 18 (replicate 10 (Some 0)) @ replicate 2 (Some 0 # replicate 9 (Some 1)),
          \<lambda>n. 0)"
  by (simp add: generateGarbage_def createBoard_def garbage_row_def random_def
        floor_scaled_def cell_write_def numeral_eq_Suc upt_rec)

text \<open>
  C4. No state that the component reaches has the terminal flag
  \<^verbatim>\<open>over\<close> set: no updater writes it, and reset clears it. When a spawn is attempted
  with no active piece and every count of the inventory at zero, the game state stays
  as it is, and the pause is the flag \<^verbatim>\<open>running\<close> of the component, which is cleared.
\<close>

theorem starvation_pauses:
  assumes "reachable pl"
  shows "\<not> over (game pl)
       \<and> (piece (game pl) = None \<and> (\<forall>k. inventory pl k = 0) \<longrightarrow>
            ensurePiece pl g = Inr (pl\<lparr>running := False\<rparr>, g))"
proof -
  have "ensurePiece pl g = Inr (pl\<lparr>running := False\<rparr>, g)"
    if "piece (game pl) = None \<and> (\<forall>k. inventory pl k = 0)"
    using that by (intro ensurePiece_starved) simp_all
  with reachable_not_over [OF assms] show ?thesis by blast
qed

theorem starvation_pauses_witness:
  "reachable \<lparr>game = \<lparr>board = replicate 18 (replicate 10 (Some 0))
                                  @ replicate 2 (Some 0 # replicate 9 (Some 1)),
                        piece = None, over = False, score = 0\<rparr>,
              running = True, lastConsumed = None, prefill = 2, inventory = (\<lambda>k. 0)\<rparr>
   \<and> ensurePiece \<lparr>game = \<lparr>board = replicate 18 (replicate 10 (Some 0))
                                  @ replicate 2 (Some 0 # replicate 9 (Some 1)),
                        piece = None, over = False, score = 0\<rparr>,
              running = True, lastConsumed = None, prefill = 2, inventory = (\<lambda>k. 0)\<rparr>
        (\<lambda>n. 1 / 2)
     = Inr (\<lparr>game = \<lparr>board = replicate 18 (replicate 10 (Some 0))
                                  @ replicate 2 (Some 0 # replicate 9 (Some 1)),
                        piece = None, over = False, score = 0\<rparr>,
              running = False, lastConsumed = None, prefill = 2, inventory = (\<lambda>k. 0)\<rparr>,
            \<lambda>n. 1 / 2)"
proof -
  let ?pl = "\<lparr>game = \<lparr>board = replicate 18 (replicate 10 (Some 0))
                                  @ replicate 2 (Some 0 # replicate 9 (Some 1)),
                        piece = None, over = False, score = 0\<rparr>,
              running = False, lastConsumed = None, prefill = 2, inventory = (\<lambda>k::Shape. 0::int)\<rparr>"
  have "reachable ?pl" by (rule reachable.mount [OF garbage_const])
  then have "reachable (?pl\<lparr>running := True\<rparr>)" by (rule reachable.start_pause)
  then have r: "reachable (?pl\<lparr>running := True\<rparr>)" .
  from starvation_pauses [OF r, of "\<lambda>n. 1 / 2"] r show ?thesis by simp
qed

theorem starvation_counterexample:
  "generateGarbage 20 10 2 (\<lambda>n. 0) =
     Inr (replicate 18 (replicate 10 (Some 0)) @ replicate 2 (Some 0 # replicate 9 (Some 1)),
          \<lambda>n. 0)
   \<and> ensurePiece \<lparr>game = \<lparr>board = replicate 18 (replicate 10 (Some 0))
                                  @ replicate 2 (Some 0 # replicate 9 (Some 1)),
                        piece = None, over = False, score = 0\<rparr>,
              running = True, lastConsumed = None, prefill = 2, inventory = (\<lambda>k. 0)\<rparr>
        (\<lambda>n. 0)
     = Inr (\<lparr>game = \<lparr>board = replicate 18 (replicate 10 (Some 0))
                                  @ replicate 2 (Some 0 # replicate 9 (Some 1)),
                        piece = None, over = False, score = 0\<rparr>,
              running = False, lastConsumed = None, prefill = 2, inventory = (\<lambda>k. 0)\<rparr>,
            \<lambda>n. 0)"
proof -
  let ?pl = "\<lparr>game = \<lparr>board = replicate 18 (replicate 10 (Some 0))
                                  @ replicate 2 (Some 0 # replicate 9 (Some 1)),
                        piece = None, over = False, score = 0\<rparr>,
              running = True, lastConsumed = None, prefill = 2, inventory = (\<lambda>k::Shape. 0::int)\<rparr>"
  have "ensurePiece ?pl (\<lambda>n. 0) = Inr (?pl\<lparr>running := False\<rparr>, \<lambda>n. 0)"
    by (rule ensurePiece_starved) simp_all
  with garbage_const show ?thesis by simp
qed

text \<open>
  C9. With an active piece, move tests the matrix of the piece at the column moved by
  \<open>dx\<close>, and rotate the matrix of the next rotation index at the same place, with
  canPlace: the change is made when the test holds, and when it fails the state comes
  back as it is, without an error. A state that differs from the old one comes only
  from a test that held. For a rotation index of the table neither of them throws.
\<close>

theorem move_rotate_validated:
  assumes "piece s = Some p"
  shows "(\<forall>sh. pieceMatrix (pshape p) (pr p) = Inr sh \<longrightarrow>
            move dx s = (if canPlace (board s) sh (px p + dx) (py p)
                         then Inr (s\<lparr>piece := Some (p\<lparr>px := px p + dx\<rparr>)\<rparr>) else Inr s))
       \<and> (\<forall>s'. move dx s = Inr s' \<and> s' \<noteq> s \<longrightarrow>
            (\<exists>sh. pieceMatrix (pshape p) (pr p) = Inr sh \<and> canPlace (board s) sh (px p + dx) (py p)))
       \<and> (\<forall>sh. pieceMatrix (pshape p) (js_rem (pr p + 1) (int (length (PIECE_MAP (pshape p))))) = Inr sh \<longrightarrow>
            rotate s = (if canPlace (board s) sh (px p) (py p)
                        then Inr (s\<lparr>piece := Some (p\<lparr>pr := js_rem (pr p + 1) (int (length (PIECE_MAP (pshape p))))\<rparr>)\<rparr>)
                        else Inr s))
       \<and> (\<forall>s'. rotate s = Inr s' \<and> s' \<noteq> s \<longrightarrow>
            (\<exists>sh. pieceMatrix (pshape p) (js_rem (pr p + 1) (int (length (PIECE_MAP (pshape p))))) = Inr sh
                  \<and> canPlace (board s) sh (px p) (py p)))
       \<and> (0 \<le> pr p \<and> pr p < int (length (PIECE_MAP (pshape p))) \<longrightarrow>
            (\<exists>s'. move dx s = Inr s') \<and> (\<exists>s'. rotate s = Inr s'))"
proof -
  let ?n = "int (length (PIECE_MAP (pshape p)))"
  let ?nr = "js_rem (pr p + 1) ?n"
  have m1: "\<forall>sh. pieceMatrix (pshape p) (pr p) = Inr sh \<longrightarrow>
            move dx s = (if canPlace (board s) sh (px p + dx) (py p)
                         then Inr (s\<lparr>piece := Some (p\<lparr>px := px p + dx\<rparr>)\<rparr>) else Inr s)"
    using assms by (simp add: move_def)
  have m2: "\<forall>s'. move dx s = Inr s' \<and> s' \<noteq> s \<longrightarrow>
            (\<exists>sh. pieceMatrix (pshape p) (pr p) = Inr sh \<and> canPlace (board s) sh (px p + dx) (py p))"
    using assms by (auto simp: move_def Let_def split: sum.splits if_splits)
  have r1: "\<forall>sh. pieceMatrix (pshape p) ?nr = Inr sh \<longrightarrow>
            rotate s = (if canPlace (board s) sh (px p) (py p)
                        then Inr (s\<lparr>piece := Some (p\<lparr>pr := ?nr\<rparr>)\<rparr>) else Inr s)"
    using assms by (simp add: rotate_def Let_def)
  have r2: "\<forall>s'. rotate s = Inr s' \<and> s' \<noteq> s \<longrightarrow>
            (\<exists>sh. pieceMatrix (pshape p) ?nr = Inr sh \<and> canPlace (board s) sh (px p) (py p))"
    using assms by (auto simp: rotate_def Let_def split: sum.splits if_splits)
  have ok: "(\<exists>s'. move dx s = Inr s') \<and> (\<exists>s'. rotate s = Inr s')"
    if "0 \<le> pr p \<and> pr p < ?n"
  proof -
    from that obtain sh where sh: "pieceMatrix (pshape p) (pr p) = Inr sh"
      using pieceMatrix_Inr_iff [of "pshape p" "pr p"] by blast
    from that have "- 1 \<le> pr p" by simp
    from js_rem_next [OF this PIECE_MAP_nonempty [of "pshape p", THEN iffD2 [OF of_nat_0_less_iff]]]
    have "0 \<le> ?nr \<and> ?nr < ?n" by simp
    then obtain sh' where sh': "pieceMatrix (pshape p) ?nr = Inr sh'"
      using pieceMatrix_Inr_iff [of "pshape p" ?nr] by blast
    from m1 sh have "\<exists>s'. move dx s = Inr s'" by (cases "canPlace (board s) sh (px p + dx) (py p)") auto
    moreover from r1 sh' have "\<exists>s'. rotate s = Inr s'" by (cases "canPlace (board s) sh' (px p) (py p)") auto
    ultimately show ?thesis by blast
  qed
  from m1 m2 r1 r2 ok show ?thesis by blast
qed

theorem move_rotate_validated_witness:
  "piece \<lparr>board = replicate 4 (replicate 4 (Some 0)),
          piece = Some \<lparr>pshape = Shape_I, px = 0, py = 3, pr = 0\<rparr>, over = False, score = 0\<rparr>
     = Some \<lparr>pshape = Shape_I, px = 0, py = 3, pr = 0\<rparr>
   \<and> \<not> canPlace (replicate 4 (replicate 4 (Some 0))) [[1, 1, 1, 1]] 1 3
   \<and> move 1 \<lparr>board = replicate 4 (replicate 4 (Some 0)),
            piece = Some \<lparr>pshape = Shape_I, px = 0, py = 3, pr = 0\<rparr>, over = False, score = 0\<rparr>
      = Inr \<lparr>board = replicate 4 (replicate 4 (Some 0)),
            piece = Some \<lparr>pshape = Shape_I, px = 0, py = 3, pr = 0\<rparr>, over = False, score = 0\<rparr>
   \<and> \<not> canPlace (replicate 4 (replicate 4 (Some 0))) [[1], [1], [1], [1]] 0 3
   \<and> rotate \<lparr>board = replicate 4 (replicate 4 (Some 0)),
            piece = Some \<lparr>pshape = Shape_I, px = 0, py = 3, pr = 0\<rparr>, over = False, score = 0\<rparr>
      = Inr \<lparr>board = replicate 4 (replicate 4 (Some 0)),
            piece = Some \<lparr>pshape = Shape_I, px = 0, py = 3, pr = 0\<rparr>, over = False, score = 0\<rparr>"
proof -
  let ?b = "replicate 4 (replicate 4 (Some (0::int)))"
  let ?p = "\<lparr>pshape = Shape_I, px = 0, py = 3, pr = 0\<rparr>"
  let ?s = "\<lparr>board = ?b, piece = Some ?p, over = False, score = 0\<rparr>"
  have h: "piece ?s = Some ?p" by simp
  have flat: "pieceMatrix Shape_I 0 = Inr [[1, 1, 1, 1]]"
    and up: "pieceMatrix Shape_I (js_rem (0 + 1) (int (length (PIECE_MAP Shape_I)))) = Inr [[1], [1], [1], [1]]"
    by (simp_all add: pieceMatrix_def js_rem_def)
  have no: "\<not> canPlace ?b [[1, 1, 1, 1]] 1 3" "\<not> canPlace ?b [[1], [1], [1], [1]] 0 3"
    by (simp_all add: canPlace_def loop_cells_def blocked_def num_read_def truthy_def cell_read_def)
  from move_rotate_validated [OF h, of 1] flat up no show ?thesis by simp
qed

text \<open>
  C10. In a game state with no active piece, step, move, rotate and hardDrop each
  return the state as it is: board, score and terminal flag are kept, no piece appears,
  and nothing is thrown.
\<close>

theorem no_piece_unchanged:
  assumes "piece s = None"
  shows "step s = Inr s \<and> move dx s = Inr s \<and> rotate s = Inr s \<and> hardDrop s = Some (Inr s)"
  using assms by (simp add: step_def move_def rotate_def hardDrop_def)

theorem no_piece_unchanged_witness:
  "piece \<lparr>board = [[Some 1, Some 0]], piece = None, over = False, score = 300\<rparr> = None
   \<and> step \<lparr>board = [[Some 1, Some 0]], piece = None, over = False, score = 300\<rparr>
       = Inr \<lparr>board = [[Some 1, Some 0]], piece = None, over = False, score = 300\<rparr>
   \<and> move (- 1) \<lparr>board = [[Some 1, Some 0]], piece = None, over = False, score = 300\<rparr>
       = Inr \<lparr>board = [[Some 1, Some 0]], piece = None, over = False, score = 300\<rparr>
   \<and> rotate \<lparr>board = [[Some 1, Some 0]], piece = None, over = False, score = 300\<rparr>
       = Inr \<lparr>board = [[Some 1, Some 0]], piece = None, over = False, score = 300\<rparr>
   \<and> hardDrop \<lparr>board = [[Some 1, Some 0]], piece = None, over = False, score = 300\<rparr>
       = Some (Inr \<lparr>board = [[Some 1, Some 0]], piece = None, over = False, score = 300\<rparr>)"
proof -
  let ?s = "\<lparr>board = [[Some 1, Some 0]], piece = None, over = False, score = 300\<rparr>"
  have h: "piece ?s = None" by simp
  from no_piece_unchanged [OF h, of "- 1"] h show ?thesis by blast
qed

end
